theory Spec2Isabelle
  imports Main
begin

section \<open>JavaScript values\<close>

text \<open>
  The library handles values of type \<open>unknown\<close>: whatever Deno KV stores and whatever the
  update callback returns. They are modelled as trees: a primitive, an array or an object
  (a list of properties). Numbers are integers (lengths, counters, balances); \<open>NaN\<close>,
  fractions and class instances are outside the model. An array or object is represented by
  its contents, so a copy and its original are equal exactly when their contents are.
\<close>

datatype jsval =
    JUndefined
  | JNull
  | JBool bool
  | JNum int
  | JStr string
  | JArr "jsval list"
  | JObj "(string \<times> jsval) list"

text \<open>\<open>!v\<close> is true for the falsy values: \<open>undefined\<close>, \<open>null\<close>, \<open>false\<close>, \<open>0\<close>, \<open>""\<close>.\<close>

fun truthy :: "jsval \<Rightarrow> bool" where
  "truthy JUndefined = False"
| "truthy JNull = False"
| "truthy (JBool b) = b"
| "truthy (JNum n) = (n \<noteq> 0)"
| "truthy (JStr s) = (s \<noteq> [])"
| "truthy (JArr xs) = True"
| "truthy (JObj ps) = True"

text \<open>
  \<open>v.length\<close> for a value that is neither \<open>undefined\<close> nor \<open>null\<close> (the source reads it
  only after the falsy check): the number of elements of an array, the number of
  characters of a string, the property \<open>length\<close> of an object, and \<open>undefined\<close> on a
  boolean or a number.
\<close>

fun js_length :: "jsval \<Rightarrow> jsval" where
  "js_length (JArr xs) = JNum (int (length xs))"
| "js_length (JStr s) = JNum (int (length s))"
| "js_length (JObj ps) = (case map_of ps ''length'' of None \<Rightarrow> JUndefined | Some v \<Rightarrow> v)"
| "js_length v = JUndefined"

text \<open>The decimal numeral of an index, the name under which an object holds element \<open>i\<close>.\<close>

fun decimal :: "nat \<Rightarrow> string" where
  "decimal n =
     (if n < 10 then [char_of (48 + n)]
      else decimal (n div 10) @ [char_of (48 + n mod 10)])"

text \<open>
  \<open>v[i]\<close>: the element of an array (\<open>undefined\<close> out of range, as JavaScript has it), the
  one-character string of a string, the property named by the index of an object.
\<close>

fun js_index :: "jsval \<Rightarrow> nat \<Rightarrow> jsval" where
  "js_index (JArr xs) i = (if i < length xs then xs ! i else JUndefined)"
| "js_index (JStr s) i = (if i < length s then JStr [s ! i] else JUndefined)"
| "js_index (JObj ps) i = (case map_of ps (decimal i) of None \<Rightarrow> JUndefined | Some v \<Rightarrow> v)"
| "js_index v i = JUndefined"

text \<open>
  \<open>structuredClone\<close> (a platform function) builds a deep copy: every array and object of
  the tree is built anew, so the copy shares nothing with the original and later writes
  into the original do not reach it.
\<close>

primrec structuredClone :: "jsval \<Rightarrow> jsval" where
  "structuredClone JUndefined = JUndefined"
| "structuredClone JNull = JNull"
| "structuredClone (JBool b) = JBool b"
| "structuredClone (JNum n) = JNum n"
| "structuredClone (JStr s) = JStr s"
| "structuredClone (JArr xs) = JArr (map structuredClone xs)"
| "structuredClone (JObj ps) = JObj (map (map_prod id structuredClone) ps)"

section \<open>The backend\<close>

text \<open>
  Deno KV is not part of the repository; the library uses \<open>getMany\<close>, \<open>atomic\<close>,
  \<open>check\<close>, \<open>set\<close> and \<open>commit\<close> of it. A key is an array of key parts (\<open>any[]\<close>). An
  entry read back carries the key, the value and the versionstamp, both \<open>null\<close> when the
  key is absent (\<open>Deno.KvEntryMaybe\<close>). Versionstamps are modelled as numbers that grow
  with every commit.
\<close>

type_synonym key = "jsval list"

record KvEntryMaybe =
  key :: key
  value' :: jsval
  versionstamp :: "nat option"

datatype mutation = MSet key jsval | MDelete key

record AtomicOperation =
  checks :: "(key \<times> nat option) list"
  mutations :: "mutation list"

text \<open>The round trips a call makes to the backend, recorded in order.\<close>

datatype event =
    Read "key list" "KvEntryMaybe list"
  | Commit AtomicOperation bool

text \<open>
  The database (\<open>entries\<close>, with the versionstamp of the last commit in \<open>clock\<close>), the
  number of round trips served so far (\<open>tick\<close>) and the record of the round trips
  (\<open>trace\<close>). \<open>tick\<close> only selects what the other clients do next, and \<open>trace\<close> only
  observes the run: no operation of the backend or of the library depends on it.
\<close>

record Kv =
  entries :: "key \<rightharpoonup> jsval \<times> nat"
  clock :: nat
  tick :: nat
  trace :: "event list"

text \<open>
  Other clients of the same database: \<open>sched t\<close> are the writes another client commits
  just before the backend serves round trip number \<open>t\<close> (none when the list is empty).
  Every theorem below holds for every schedule.
\<close>

type_synonym schedule = "nat \<Rightarrow> mutation list"

fun apply_mutation :: "nat \<Rightarrow> (key \<rightharpoonup> jsval \<times> nat) \<Rightarrow> mutation \<Rightarrow> (key \<rightharpoonup> jsval \<times> nat)" where
  "apply_mutation vs m (MSet k v) = m(k \<mapsto> (v, vs))"
| "apply_mutation vs m (MDelete k) = m(k := None)"

text \<open>A commit that takes effect: all its writes get the next versionstamp.\<close>

definition apply_writes :: "mutation list \<Rightarrow> Kv \<Rightarrow> Kv" where
  "apply_writes ms kv =
     kv\<lparr>entries := foldl (apply_mutation (Suc (clock kv))) (entries kv) ms,
        clock := Suc (clock kv)\<rparr>"

definition foreign :: "schedule \<Rightarrow> Kv \<Rightarrow> Kv" where
  "foreign sched kv =
     (let kv1 = (if sched (tick kv) = [] then kv else apply_writes (sched (tick kv)) kv)
      in kv1\<lparr>tick := Suc (tick kv)\<rparr>)"

text \<open>
  Modelled from the spec: \<open>batchGet\<close> of section 6 (\<open>Deno.Kv.getMany\<close>): one entry per
  key, in the order of the keys, each with the value and version token now in the
  database; a pure read.
\<close>

definition lookup_entry :: "Kv \<Rightarrow> key \<Rightarrow> KvEntryMaybe" where
  "lookup_entry kv k =
     (case entries kv k of
        None \<Rightarrow> \<lparr>key = k, value' = JNull, versionstamp = None\<rparr>
      | Some (v, vs) \<Rightarrow> \<lparr>key = k, value' = v, versionstamp = Some vs\<rparr>)"

definition getMany :: "schedule \<Rightarrow> Kv \<Rightarrow> key list \<Rightarrow> KvEntryMaybe list \<times> Kv" where
  "getMany sched kv keys =
     (let kv1 = foreign sched kv;
          results = map (lookup_entry kv1) keys
      in (results, kv1\<lparr>trace := trace kv1 @ [Read keys results]\<rparr>))"

text \<open>
  Modelled from the spec: the transaction handle of section 6 (\<open>Deno.AtomicOperation\<close>):
  \<open>check\<close> and \<open>set\<close> add to the transaction, \<open>commit\<close> applies every write if every
  check holds against the database as it is then, and nothing otherwise.
\<close>

definition atomic :: AtomicOperation where
  "atomic = \<lparr>checks = [], mutations = []\<rparr>"

definition check :: "AtomicOperation \<Rightarrow> KvEntryMaybe \<Rightarrow> AtomicOperation" where
  "check tx e = tx\<lparr>checks := checks tx @ [(key e, versionstamp e)]\<rparr>"

definition set_op :: "AtomicOperation \<Rightarrow> key \<Rightarrow> jsval \<Rightarrow> AtomicOperation" where
  "set_op tx k v = tx\<lparr>mutations := mutations tx @ [MSet k v]\<rparr>"

definition check_holds :: "Kv \<Rightarrow> key \<times> nat option \<Rightarrow> bool" where
  "check_holds kv c = (map_option snd (entries kv (fst c)) = snd c)"

definition commit :: "schedule \<Rightarrow> Kv \<Rightarrow> AtomicOperation \<Rightarrow> bool \<times> Kv" where
  "commit sched kv tx =
     (let kv1 = foreign sched kv;
          ok = list_all (check_holds kv1) (checks tx);
          kv2 = (if ok then apply_writes (mutations tx) kv1 else kv1)
      in (ok, kv2\<lparr>trace := trace kv2 @ [Commit tx ok]\<rparr>))"

section \<open>The update callback\<close>

text \<open>
  The callback \<open>updateValues(values, abort)\<close> is caller code. What a run of it does is
  given by three things: the contents of the array it was passed once it has returned
  (it may write into that array), the calls of \<open>abort\<close> it made, in order, each with the
  \<open>reason\<close> it passed (\<open>None\<close> when the argument is left out), and the value it returned
  (\<open>undefined\<close> when it returns nothing; the contents it left in the array when it
  returns the array it was passed). It may also depend on and change state of the
  caller (\<open>'s\<close>), so two runs on equal values can differ. The model covers callbacks
  that return; one that throws ends the call with its exception.
\<close>

record 'a outcome =
  mutated :: 'a
  abort_calls :: "string option list"
  returned :: jsval

type_synonym ('s, 'a) callback = "'s \<Rightarrow> 'a \<Rightarrow> 'a outcome \<times> 's"

text \<open>
  The two variables the closure \<open>abort\<close> writes, and the closure itself:
  \<^verbatim>\<open>aborting = true; if (reason) abortReason = reason;\<close>
\<close>

record abort_vars =
  aborting :: bool
  abortReason :: "string option"

definition abort :: "abort_vars \<Rightarrow> string option \<Rightarrow> abort_vars" where
  "abort st reason =
     (let st1 = st\<lparr>aborting := True\<rparr>
      in case reason of
           None \<Rightarrow> st1
         | Some r \<Rightarrow> if r \<noteq> [] then st1\<lparr>abortReason := Some r\<rparr> else st1)"

text \<open>The two variables once the callback has returned: lines 76 and 77, then its calls.\<close>

definition run_aborts :: "string option list \<Rightarrow> abort_vars" where
  "run_aborts calls = foldl abort \<lparr>aborting = False, abortReason = None\<rparr> calls"

section \<open>The library: \<open>mod.ts\<close>\<close>

record SafeAtomicResponse =
  ok :: bool
  error :: "string option"

record SafeAtomicSingleResponse = SafeAtomicResponse +
  value' :: jsval

record SafeAtomicManyResponse = SafeAtomicResponse +
  values' :: jsval

text \<open>
  The loop of lines 107 to 110. It runs while \<open>i !== updatedValues.length\<close>, and it is
  reached only when \<open>updatedValues.length === results.length\<close>, so \<open>i\<close> runs over the
  indices of \<open>results\<close>.
\<close>

definition build_tx :: "KvEntryMaybe list \<Rightarrow> jsval \<Rightarrow> AtomicOperation" where
  "build_tx results updatedValues =
     foldl (\<lambda>tx i. set_op (check tx (results ! i)) (key (results ! i)) (js_index updatedValues i))
       atomic [0..<length results]"

text \<open>
  The arrays \<open>resultValues\<close> and \<open>originalResultValues\<close> are objects: each variable
  holds a reference, and the callback writes through the reference it is passed. The
  arrays of a pass live in a store, a reference is an index into it; \<open>results.map\<close> and
  \<open>structuredClone\<close> each allocate a new array.
\<close>

type_synonym ref = nat

type_synonym store = "jsval list list"

definition new_array :: "store \<Rightarrow> jsval list \<Rightarrow> ref \<times> store" where
  "new_array h xs = (length h, h @ [xs])"

definition structuredClone_array :: "store \<Rightarrow> ref \<Rightarrow> ref \<times> store" where
  "structuredClone_array h r = new_array h (map structuredClone (h ! r))"

text \<open>
  One pass through the body of \<open>setSafeAtomicMany\<close>, lines 70 to 114: it ends the call
  with a response or a thrown \<open>Error\<close> (\<open>Inl\<close> of its message), or it reaches line 116
  with a failed commit, carrying the contents of \<open>originalResultValues\<close>. The callback
  is run on the array \<open>resultValues\<close>, whose contents are \<open>mutated out\<close> afterwards; a
  response holds the contents its array has when the pass ends.
\<close>

datatype step =
    Settled "string + SafeAtomicManyResponse"
  | CommitFailed jsval

definition attempt ::
  "schedule \<Rightarrow> Kv \<Rightarrow> key list \<Rightarrow> ('s, jsval list) callback \<Rightarrow> 's \<Rightarrow> step \<times> Kv \<times> 's"
where
  "attempt sched this keys updateValues s =
     (let (results, this1) = getMany sched this keys;
          (resultValues, h1) = new_array [] (map KvEntryMaybe.value' results);
          (originalResultValues, h2) = structuredClone_array h1 resultValues;
          (out, s') = updateValues s (h2 ! resultValues);
          h3 = h2[resultValues := mutated out];
          st = run_aborts (abort_calls out);
          updatedValues = returned out
      in if aborting st
         then (Settled (Inr \<lparr>ok = False, error = abortReason st,
                              values' = JArr (h3 ! originalResultValues)\<rparr>), this1, s')
         else if \<not> truthy updatedValues
         then (Settled (Inl ''updateValues must return an array of values to update''),
               this1, s')
         else if js_length updatedValues \<noteq> JNum (int (length results))
         then (Settled (Inl (''The number of resuts returned from the update callback '' @
                             ''must match the number of keys'')), this1, s')
         else
           (let (ok, this2) = commit sched this1 (build_tx results updatedValues)
            in if ok
               then (Settled (Inr \<lparr>ok = ok, error = None, values' = updatedValues\<rparr>),
                     this2, s')
               else (CommitFailed (JArr (h3 ! originalResultValues)), this2, s')))"

text \<open>
  \<open>retryCount\<close> is a JavaScript number, a binary64 value. The model covers the numbers
  that are integers, and \<open>retryCount - 1\<close> is the integer \<open>retryCount - 1\<close> rounded to
  binary64: to the nearest integer with a significand of 53 bits, to the one with the
  even significand when two are equally near. Every integer up to \<open>2^53\<close> in magnitude
  is a binary64 value. \<open>bits n\<close> is the number of binary digits of \<open>n\<close>.
\<close>

fun bits :: "nat \<Rightarrow> nat" where
  "bits n = (if n = 0 then 0 else Suc (bits (n div 2)))"

declare bits.simps [simp del]

definition binary64 :: "int \<Rightarrow> int" where
  "binary64 x =
     (if \<bar>x\<bar> \<le> 9007199254740992 then x
      else
        (let m = nat \<bar>x\<bar>;
             e = bits m - 53;
             q = m div 2 ^ e;
             r = m mod 2 ^ e;
             up = (2 ^ e < 2 * r \<or> (2 * r = 2 ^ e \<and> odd q))
         in sgn x * int ((if up then q + 1 else q) * 2 ^ e)))"

text \<open>
  The parameter \<open>retryCount: number = 10\<close>: the argument is \<open>None\<close> when the caller
  leaves it out (or passes \<open>undefined\<close>).
\<close>

definition retryCount_of :: "int option \<Rightarrow> int" where
  "retryCount_of retryCount_arg = (case retryCount_arg of None \<Rightarrow> 10 | Some n \<Rightarrow> n)"

text \<open>
  \<open>setSafeAtomicMany\<close>, lines 61 to 121. After a failed commit the function returns if
  \<open>retryCount === 0\<close> and calls itself with \<open>retryCount - 1\<close> otherwise, so under a
  \<open>retryCount\<close> that never comes down to \<open>0\<close> and a commit that fails every time it
  never returns: the result is \<open>None\<close> then.
\<close>

partial_function (option) setSafeAtomicMany ::
  "schedule \<Rightarrow> Kv \<Rightarrow> key list \<Rightarrow> ('s, jsval list) callback \<Rightarrow> 's \<Rightarrow> int option
     \<Rightarrow> ((string + SafeAtomicManyResponse) \<times> Kv \<times> 's) option"
where
  "setSafeAtomicMany sched this keys updateValues s retryCount_arg =
     (let retryCount = retryCount_of retryCount_arg
      in case attempt sched this keys updateValues s of
           (Settled r, this', s') \<Rightarrow> Some (r, this', s')
         | (CommitFailed originalResultValues, this', s') \<Rightarrow>
             if retryCount = 0
             then Some (Inr \<lparr>ok = False, error = Some ''Failed to commit transaction'',
                             values' = originalResultValues\<rparr>, this', s')
             else setSafeAtomicMany sched this' keys updateValues s' (Some (binary64 (retryCount - 1))))"

declare setSafeAtomicMany.simps [code]

text \<open>
  \<open>setSafeAtomic\<close>, lines 123 to 141. The callback it passes on is
  \<^verbatim>\<open>(values, abort) => [updateValue(values[0], abort)]\<close>; what \<open>updateValue\<close> writes into
  the value it is passed is a write into element \<open>0\<close> of \<open>values\<close>.
\<close>

definition wrap_single :: "('s, jsval) callback \<Rightarrow> ('s, jsval list) callback" where
  "wrap_single updateValue s values =
     (let (out, s') = updateValue s (js_index (JArr values) 0)
      in (\<lparr>mutated = values[0 := mutated out], abort_calls = abort_calls out,
           returned = JArr [returned out]\<rparr>, s'))"

definition setSafeAtomic ::
  "schedule \<Rightarrow> Kv \<Rightarrow> key \<Rightarrow> ('s, jsval) callback \<Rightarrow> 's \<Rightarrow> int option
     \<Rightarrow> ((string + SafeAtomicSingleResponse) \<times> Kv \<times> 's) option"
where
  "setSafeAtomic sched this k updateValue s retryCount =
     (case setSafeAtomicMany sched this [k] (wrap_single updateValue) s retryCount of
        None \<Rightarrow> None
      | Some (Inl e, this', s') \<Rightarrow> Some (Inl e, this', s')
      | Some (Inr r, this', s') \<Rightarrow>
          Some (Inr \<lparr>ok = ok r, error = error r, value' = js_index (values' r) 0\<rparr>,
                this', s'))"

section \<open>Vocabulary of the statements\<close>

text \<open>
  A call may go through several passes. \<open>after_conflicts k\<close> is the state in which pass
  number \<open>k + 1\<close> of a call starts: each of the \<open>k\<close> passes before it lost its commit
  while \<open>retryCount\<close> was not \<open>0\<close>, and the call went on with \<open>retryCount - 1\<close>. It is
  \<open>None\<close> when the call does not get that far.
\<close>

fun after_conflicts ::
  "nat \<Rightarrow> schedule \<Rightarrow> Kv \<Rightarrow> key list \<Rightarrow> ('s, jsval list) callback \<Rightarrow> 's \<Rightarrow> int
     \<Rightarrow> (Kv \<times> 's \<times> int) option"
where
  "after_conflicts 0 sched this keys updateValues s retryCount = Some (this, s, retryCount)"
| "after_conflicts (Suc k) sched this keys updateValues s retryCount =
     (case attempt sched this keys updateValues s of
        (CommitFailed originalResultValues, this', s') \<Rightarrow>
          if retryCount = 0 then None
          else after_conflicts k sched this' keys updateValues s' (binary64 (retryCount - 1))
      | (Settled r, this', s') \<Rightarrow> None)"

text \<open>Counting the round trips of a trace.\<close>

fun is_read :: "event \<Rightarrow> bool" where
  "is_read (Read ks results) = True"
| "is_read (Commit tx committed) = False"

fun is_commit :: "event \<Rightarrow> bool" where
  "is_commit (Read ks results) = False"
| "is_commit (Commit tx committed) = True"

fun is_failed_commit :: "event \<Rightarrow> bool" where
  "is_failed_commit (Read ks results) = False"
| "is_failed_commit (Commit tx committed) = (\<not> committed)"

definition reads :: "event list \<Rightarrow> nat" where
  "reads evs = length (filter is_read evs)"

definition commits :: "event list \<Rightarrow> nat" where
  "commits evs = length (filter is_commit evs)"

definition failed_commits :: "event list \<Rightarrow> nat" where
  "failed_commits evs = length (filter is_failed_commit evs)"

text \<open>
  A trace made of passes over \<open>keys\<close>: every pass starts with a read of all the keys; a
  commit comes directly after the read of its own pass and checks the version tokens that
  very read returned; only a failed commit is followed by another pass.
\<close>

fun rounds :: "key list \<Rightarrow> event list \<Rightarrow> bool" where
  "rounds keys [Read ks results] = (ks = keys)"
| "rounds keys (Read ks results # Commit tx committed # evs) =
     (ks = keys \<and> map key results = keys \<and>
      checks tx = map (\<lambda>e. (key e, versionstamp e)) results \<and>
      (if committed then evs = [] else evs = [] \<or> rounds keys evs))"
| "rounds keys evs = False"

text \<open>The entries returned by the last read of a trace.\<close>

fun last_read :: "event list \<Rightarrow> KvEntryMaybe list option" where
  "last_read [] = None"
| "last_read (Read ks results # evs) =
     (case last_read evs of None \<Rightarrow> Some results | Some later \<Rightarrow> Some later)"
| "last_read (Commit tx committed # evs) = last_read evs"

text \<open>A value with a numeric \<open>length\<close>: an array, a string, an array-like object.\<close>

fun has_length :: "jsval \<Rightarrow> bool" where
  "has_length v = (case js_length v of JNum n \<Rightarrow> True | _ \<Rightarrow> False)"

text \<open>
  The last reason supplied among the calls of \<open>abort\<close>: the argument of the last call that
  passed one. And the last one that is not the empty string.
\<close>

definition last_supplied :: "string option list \<Rightarrow> string option" where
  "last_supplied calls = (case filter (\<lambda>r. r \<noteq> None) calls of [] \<Rightarrow> None | rs \<Rightarrow> last rs)"

definition last_nonempty :: "string option list \<Rightarrow> string option" where
  "last_nonempty calls =
     (case filter (\<lambda>r. r \<noteq> None \<and> r \<noteq> Some []) calls of [] \<Rightarrow> None | rs \<Rightarrow> last rs)"

text \<open>
  The specification of the single-key operation: the multi-key operation on the batch
  \<open>[key]\<close>, with the callback working on \<open>values[0]\<close> and calling \<open>abort\<close> as it does, and
  \<open>values[0]\<close> taken out of the result.
\<close>

definition updateOne_spec ::
  "schedule \<Rightarrow> Kv \<Rightarrow> key \<Rightarrow> ('s, jsval) callback \<Rightarrow> 's \<Rightarrow> int option
     \<Rightarrow> ((string + SafeAtomicSingleResponse) \<times> Kv \<times> 's) option"
where
  "updateOne_spec sched this k fn s budget =
     map_option
       (\<lambda>(r, this', s').
          (map_sum id (\<lambda>m. \<lparr>ok = ok m, error = error m, value' = js_index (values' m) 0\<rparr>) r,
           this', s'))
       (setSafeAtomicMany sched this [k]
          (\<lambda>s values.
             (\<lparr>mutated = values[0 := mutated (fst (fn s (js_index (JArr values) 0)))],
               abort_calls = abort_calls (fst (fn s (js_index (JArr values) 0))),
               returned = JArr [returned (fst (fn s (js_index (JArr values) 0)))]\<rparr>,
              snd (fn s (js_index (JArr values) 0))))
          s budget)"

section \<open>Scenarios\<close>

text \<open>
  The example of the README: 50 monies go from Chad to Stacy unless Chad has too little.
  The state of the callbacks counts their runs.
\<close>

definition chad :: key where
  "chad = [JStr ''balance'', JStr ''chad'']"

definition stacy :: key where
  "stacy = [JStr ''balance'', JStr ''stacy'']"

definition bank :: "int \<Rightarrow> int \<Rightarrow> Kv" where
  "bank a b =
     \<lparr>entries = [chad \<mapsto> (JNum a, 1), stacy \<mapsto> (JNum b, 2)], clock = 2, tick = 0, trace = []\<rparr>"

fun transfer :: "(nat, jsval list) callback" where
  "transfer runs [JNum a, JNum b] =
     (if a < 50
      then (\<lparr>mutated = [JNum a, JNum b], abort_calls = [Some ''Chad has too little money''],
             returned = JUndefined\<rparr>, Suc runs)
      else (\<lparr>mutated = [JNum a, JNum b], abort_calls = [],
             returned = JArr [JNum (a - 50), JNum (b + 50)]\<rparr>, Suc runs))"
| "transfer runs vs = (\<lparr>mutated = vs, abort_calls = [], returned = JUndefined\<rparr>, Suc runs)"

text \<open>The same transfer written into the array it is passed, which it returns.\<close>

fun transfer_in_place :: "(nat, jsval list) callback" where
  "transfer_in_place runs [JNum a, JNum b] =
     (\<lparr>mutated = [JNum (a - 50), JNum (b + 50)], abort_calls = [],
       returned = JArr [JNum (a - 50), JNum (b + 50)]\<rparr>, Suc runs)"
| "transfer_in_place runs vs = (\<lparr>mutated = vs, abort_calls = [], returned = JArr vs\<rparr>, Suc runs)"

text \<open>Callbacks that return nothing, return one value for two keys, call \<open>abort\<close>.\<close>

definition returns_nothing :: "(nat, jsval list) callback" where
  "returns_nothing runs vs = (\<lparr>mutated = vs, abort_calls = [], returned = JUndefined\<rparr>, Suc runs)"

definition returns_one_value :: "(nat, jsval list) callback" where
  "returns_one_value runs vs = (\<lparr>mutated = vs, abort_calls = [], returned = JArr [JNum 1]\<rparr>, Suc runs)"

definition aborts_with :: "string option list \<Rightarrow> (nat, jsval list) callback" where
  "aborts_with calls runs vs =
     (\<lparr>mutated = vs, abort_calls = calls, returned = JUndefined\<rparr>, Suc runs)"

text \<open>The visit counter of the README: \<open>(value, abort) => value + 1\<close>.\<close>

fun increment :: "(nat, jsval) callback" where
  "increment runs (JNum n) = (\<lparr>mutated = JNum n, abort_calls = [], returned = JNum (n + 1)\<rparr>, Suc runs)"
| "increment runs v = (\<lparr>mutated = v, abort_calls = [], returned = JNum 1\<rparr>, Suc runs)"

text \<open>
  No other client; a client that sets Chad's balance to 20 before the first commit; a
  client that sets it to 500 before every commit.
\<close>

definition quiet :: schedule where
  "quiet t = []"

definition rival_once :: schedule where
  "rival_once t = (if t = 1 then [MSet chad (JNum 20)] else [])"

definition rival :: schedule where
  "rival t = (if odd t then [MSet chad (JNum 500)] else [])"

text \<open>
  A state in which a pass over \<open>[chad]\<close> starts when \<open>rival\<close> is at work: the next round
  trip is an even one, and Chad's entry, if any, is not newer than the last commit.
\<close>

definition before_rival :: "Kv \<Rightarrow> bool" where
  "before_rival kv =
     (even (tick kv) \<and> (case entries kv chad of None \<Rightarrow> True | Some (v, vs) \<Rightarrow> vs \<le> clock kv))"

text \<open>A callback that returns a given value and makes no call of \<open>abort\<close>.\<close>

definition returns :: "jsval \<Rightarrow> (nat, jsval list) callback" where
  "returns v runs vs = (\<lparr>mutated = vs, abort_calls = [], returned = v\<rparr>, Suc runs)"

section \<open>Properties of the model\<close>

subsection \<open>Values\<close>

lemma structuredClone_id: "structuredClone v = v"
proof (induction v)
  case (JArr xs)
  then show ?case by (simp add: map_idI)
next
  case (JObj ps)
  have "map (map_prod id structuredClone) ps = ps"
  proof (rule map_idI)
    fix p assume p: "p \<in> set ps"
    obtain a b where ab: "p = (a, b)" by (cases p)
    have "structuredClone b = b" using JObj [of p b] p ab by simp
    then show "map_prod id structuredClone p = p" using ab by simp
  qed
  then show ?case by simp
qed simp_all

subsection \<open>Numbers\<close>

lemma bits_lower: "0 < n \<Longrightarrow> 2 ^ (bits n - 1) \<le> n"
proof (induction n rule: bits.induct)
  case (1 n)
  show ?case
  proof (cases "n div 2 = 0")
    case True
    with 1(2) show ?thesis by (simp add: bits.simps [of n] bits.simps [of 0])
  next
    case False
    with 1 have ih: "2 ^ (bits (n div 2) - 1) \<le> n div 2" by simp
    have b: "bits (n div 2) \<noteq> 0" using False by (simp add: bits.simps [of "n div 2"])
    have "bits n - 1 = Suc (bits (n div 2) - 1)" using 1(2) b by (simp add: bits.simps [of n])
    then have "(2::nat) ^ (bits n - 1) = 2 * 2 ^ (bits (n div 2) - 1)" by simp
    also have "\<dots> \<le> 2 * (n div 2)" using ih by simp
    also have "\<dots> \<le> n" by simp
    finally show ?thesis .
  qed
qed

lemma binary64_exact: "\<bar>x\<bar> \<le> 9007199254740992 \<Longrightarrow> binary64 x = x"
  by (simp add: binary64_def)

lemma binary64_negative:
  assumes "x < 0"
  shows "binary64 x < 0"
proof (cases "\<bar>x\<bar> \<le> 9007199254740992")
  case True
  with assms show ?thesis by (simp add: binary64_def)
next
  case False
  define m where "m = nat \<bar>x\<bar>"
  define e where "e = bits m - 53"
  define up where "up = (2 ^ e < 2 * (m mod 2 ^ e) \<or> (2 * (m mod 2 ^ e) = 2 ^ e \<and> odd (m div 2 ^ e)))"
  have m: "0 < m" using assms by (simp add: m_def)
  have "(2::nat) ^ e \<le> 2 ^ (bits m - 1)"
    unfolding e_def by (rule power_increasing) simp_all
  also have "\<dots> \<le> m" by (rule bits_lower [OF m])
  finally have "0 < m div 2 ^ e"
    by (simp add: div_greater_zero_iff)
  then have pos: "0 < (if up then m div 2 ^ e + 1 else m div 2 ^ e) * 2 ^ e"
    by simp
  have "binary64 x = sgn x * int ((if up then m div 2 ^ e + 1 else m div 2 ^ e) * 2 ^ e)"
    using False by (simp add: binary64_def Let_def m_def e_def up_def)
  also have "\<dots> < 0"
    using assms pos by (simp add: mult_less_0_iff del: of_nat_mult)
  finally show ?thesis .
qed

text \<open>At \<open>2^53 + 4\<close> the subtraction of \<open>1\<close> rounds back to the number itself.\<close>

lemma bits_stuck: "bits 9007199254740995 = 54"
  by (simp add: bits.simps)

lemma binary64_stuck: "binary64 (9007199254740996 - 1) = 9007199254740996"
  by (simp add: binary64_def Let_def bits_stuck)

text \<open>
  A write through the reference \<open>resultValues\<close> changes that array and does not reach
  the clone taken before it.
\<close>

lemma clone_out_of_reach:
  assumes "new_array h xs = (resultValues, h1)"
    and "structuredClone_array h1 resultValues = (originalResultValues, h2)"
  shows "h2[resultValues := written] ! resultValues = written"
    and "h2[resultValues := written] ! originalResultValues = xs"
  using assms
  by (auto simp: new_array_def structuredClone_array_def nth_append structuredClone_id map_idI)

subsection \<open>The backend\<close>

lemma foreign_trace: "trace (foreign sched kv) = trace kv"
  by (simp add: foreign_def apply_writes_def Let_def)

lemma foreign_tick: "tick (foreign sched kv) = Suc (tick kv)"
  by (simp add: foreign_def apply_writes_def Let_def)

lemma foreign_trace_update: "foreign sched (kv\<lparr>trace := t\<rparr>) = (foreign sched kv)\<lparr>trace := t\<rparr>"
  by (simp add: foreign_def apply_writes_def Let_def)

lemma funpow_foreign_trace: "trace ((foreign sched ^^ n) kv) = trace kv"
  by (induction n) (simp_all add: foreign_trace)

lemma funpow_foreign_trace_update:
  "(foreign sched ^^ n) (kv\<lparr>trace := t\<rparr>) = ((foreign sched ^^ n) kv)\<lparr>trace := t\<rparr>"
  by (induction n) (simp_all add: foreign_trace_update)

lemma foreign_quiet:
  assumes "\<forall>t. sched t = []"
  shows "(foreign sched ^^ n) kv = kv\<lparr>tick := tick kv + n\<rparr>"
  using assms by (induction n) (simp_all add: foreign_def)

lemma retrace:
  assumes "a\<lparr>trace := t\<rparr> = b"
  shows "a\<lparr>trace := u\<rparr> = b\<lparr>trace := u\<rparr>"
  using arg_cong [OF assms, of "\<lambda>r. r\<lparr>trace := u\<rparr>"] by simp

lemma key_lookup_entry: "key (lookup_entry kv k) = k"
  by (simp add: lookup_entry_def split: option.split prod.split)

lemma getMany_eq:
  "getMany sched kv keys =
     (map (lookup_entry (foreign sched kv)) keys,
      (foreign sched kv)\<lparr>trace := trace kv @ [Read keys (map (lookup_entry (foreign sched kv)) keys)]\<rparr>)"
  by (simp add: getMany_def Let_def foreign_trace)

lemma getMany_results:
  assumes "getMany sched kv keys = (results, kv1)"
  shows "map key results = keys" and "length results = length keys"
    and "kv1 = (foreign sched kv)\<lparr>trace := trace kv @ [Read keys results]\<rparr>"
  using assms by (auto simp: getMany_eq key_lookup_entry comp_def)

lemma commit_eq:
  "commit sched kv tx =
     (let committed = list_all (check_holds (foreign sched kv)) (checks tx)
      in (committed,
          (if committed then apply_writes (mutations tx) (foreign sched kv) else foreign sched kv)
            \<lparr>trace := trace kv @ [Commit tx committed]\<rparr>))"
  by (simp add: commit_def Let_def foreign_trace apply_writes_def)

subsection \<open>The transaction of a pass\<close>

lemma foldl_check_set:
  "foldl (\<lambda>tx i. set_op (check tx (results ! i)) (key (results ! i)) (js_index u i)) tx0 ns =
     tx0\<lparr>checks := checks tx0 @ map (\<lambda>i. (key (results ! i), versionstamp (results ! i))) ns,
         mutations := mutations tx0 @ map (\<lambda>i. MSet (key (results ! i)) (js_index u i)) ns\<rparr>"
  by (induction ns arbitrary: tx0) (simp_all add: check_def set_op_def)

lemma build_tx_eq:
  "build_tx results u =
     \<lparr>checks = map (\<lambda>e. (key e, versionstamp e)) results,
      mutations = map (\<lambda>i. MSet (key (results ! i)) (js_index u i)) [0..<length results]\<rparr>"
proof -
  have "map (\<lambda>i. (key (results ! i), versionstamp (results ! i))) [0..<length results]
        = map (\<lambda>e. (key e, versionstamp e)) results"
    by (rule nth_equalityI) simp_all
  then show ?thesis
    by (simp add: build_tx_def foldl_check_set atomic_def)
qed

subsection \<open>The closure \<open>abort\<close>\<close>

lemma run_aborts_snoc: "run_aborts (calls @ [r]) = abort (run_aborts calls) r"
  by (simp add: run_aborts_def)

lemma aborting_run_aborts: "aborting (run_aborts calls) = (calls \<noteq> [])"
proof (induction calls rule: rev_induct)
  case Nil
  show ?case by (simp add: run_aborts_def)
next
  case (snoc r calls)
  show ?case by (simp add: run_aborts_snoc abort_def Let_def split: option.split)
qed

lemma last_of_snoc: "(case xs @ [x] of [] \<Rightarrow> None | y # ys \<Rightarrow> last (y # ys)) = x"
  by (cases xs) simp_all

lemma abortReason_run_aborts: "abortReason (run_aborts calls) = last_nonempty calls"
proof (induction calls rule: rev_induct)
  case Nil
  show ?case by (simp add: run_aborts_def last_nonempty_def)
next
  case (snoc r calls)
  show ?case
  proof (cases r)
    case None
    with snoc show ?thesis
      by (simp add: run_aborts_snoc abort_def last_nonempty_def)
  next
    case (Some t)
    show ?thesis
    proof (cases "t = []")
      case True
      with Some snoc show ?thesis
        by (simp add: run_aborts_snoc abort_def last_nonempty_def)
    next
      case False
      with Some show ?thesis
        by (simp add: run_aborts_snoc abort_def last_nonempty_def last_of_snoc)
    qed
  qed
qed

subsection \<open>One pass\<close>

lemma attempt_aborted:
  assumes "getMany sched this keys = (results, this1)"
    and "updateValues s (map KvEntryMaybe.value' results) = (out, s')"
    and "abort_calls out \<noteq> []"
  shows "attempt sched this keys updateValues s =
           (Settled (Inr \<lparr>ok = False, error = abortReason (run_aborts (abort_calls out)),
                          values' = JArr (map KvEntryMaybe.value' results)\<rparr>), this1, s')"
  using assms
  by (simp add: attempt_def new_array_def structuredClone_array_def aborting_run_aborts
      structuredClone_id map_idI)

lemma attempt_falsy:
  assumes "getMany sched this keys = (results, this1)"
    and "updateValues s (map KvEntryMaybe.value' results) = (out, s')"
    and "abort_calls out = []"
    and "\<not> truthy (returned out)"
  shows "attempt sched this keys updateValues s =
           (Settled (Inl ''updateValues must return an array of values to update''), this1, s')"
  using assms
  by (simp add: attempt_def new_array_def structuredClone_array_def aborting_run_aborts)

lemma attempt_wrong_length:
  assumes "getMany sched this keys = (results, this1)"
    and "updateValues s (map KvEntryMaybe.value' results) = (out, s')"
    and "abort_calls out = []"
    and "truthy (returned out)"
    and "js_length (returned out) \<noteq> JNum (int (length keys))"
  shows "attempt sched this keys updateValues s =
           (Settled (Inl (''The number of resuts returned from the update callback '' @
                          ''must match the number of keys'')), this1, s')"
  using assms getMany_results(2) [OF assms(1)]
  by (simp add: attempt_def new_array_def structuredClone_array_def aborting_run_aborts)

lemma attempt_commit:
  assumes "getMany sched this keys = (results, this1)"
    and "updateValues s (map KvEntryMaybe.value' results) = (out, s')"
    and "abort_calls out = []"
    and "truthy (returned out)"
    and "js_length (returned out) = JNum (int (length keys))"
    and "commit sched this1 (build_tx results (returned out)) = (committed, this2)"
  shows "attempt sched this keys updateValues s =
           (if committed
            then Settled (Inr \<lparr>ok = True, error = None, values' = returned out\<rparr>)
            else CommitFailed (JArr (map KvEntryMaybe.value' results)), this2, s')"
  using assms getMany_results(2) [OF assms(1)]
  by (simp add: attempt_def new_array_def structuredClone_array_def aborting_run_aborts
      structuredClone_id map_idI)

text \<open>The three ways a pass can go.\<close>

lemma attempt_cases:
  assumes "attempt sched this keys updateValues s = (st, this', s')"
  obtains
    (settled) r results out where "st = Settled r" "\<forall>m. r = Inr m \<longrightarrow> \<not> ok m"
      "this' = (foreign sched this)\<lparr>trace := trace this @ [Read keys results]\<rparr>"
      "\<forall>m. r = Inr m \<longrightarrow> values' m = JArr (map KvEntryMaybe.value' results)"
      "updateValues s (map KvEntryMaybe.value' results) = (out, s')"
  | (committed) m results tx out where "st = Settled (Inr m)" "ok m"
      "trace this' = trace this @ [Read keys results, Commit tx True]"
      "map key results = keys" "checks tx = map (\<lambda>e. (key e, versionstamp e)) results"
      "updateValues s (map KvEntryMaybe.value' results) = (out, s')"
  | (conflict) results tx out where "st = CommitFailed (JArr (map KvEntryMaybe.value' results))"
      "this' = (foreign sched (foreign sched this))
                 \<lparr>trace := trace this @ [Read keys results, Commit tx False]\<rparr>"
      "map key results = keys" "checks tx = map (\<lambda>e. (key e, versionstamp e)) results"
      "updateValues s (map KvEntryMaybe.value' results) = (out, s')"
proof -
  obtain results this1 where g: "getMany sched this keys = (results, this1)"
    by (cases "getMany sched this keys") auto
  obtain out s1 where u: "updateValues s (map KvEntryMaybe.value' results) = (out, s1)"
    by (cases "updateValues s (map KvEntryMaybe.value' results)") auto
  note gr = getMany_results [OF g]
  show thesis
  proof (cases "abort_calls out = []")
    case False
    from attempt_aborted [where updateValues = updateValues and s = s, OF g u False] assms
    have "st = Settled (Inr \<lparr>ok = False, error = abortReason (run_aborts (abort_calls out)),
                          values' = JArr (map KvEntryMaybe.value' results)\<rparr>)"
      and "this' = this1" and "s' = s1"
      by simp_all
    then show thesis using gr(3) u by (intro settled [of _ results out]) auto
  next
    case noabort: True
    show thesis
    proof (cases "truthy (returned out)")
      case False
      from attempt_falsy [where updateValues = updateValues and s = s, OF g u noabort False] assms
      have "st = Settled (Inl ''updateValues must return an array of values to update'')"
        and "this' = this1" and "s' = s1"
        by simp_all
      then show thesis using gr(3) u by (intro settled [of _ results out]) auto
    next
      case tr: True
      show thesis
      proof (cases "js_length (returned out) = JNum (int (length keys))")
        case False
        from attempt_wrong_length [where updateValues = updateValues and s = s,
            OF g u noabort tr False] assms
        have "\<exists>msg. st = Settled (Inl msg)" and "this' = this1" and "s' = s1"
          by simp_all
        then show thesis using gr(3) u by (elim exE, intro settled [of _ results out]) auto
      next
        case len: True
        define tx where "tx = build_tx results (returned out)"
        obtain c this2 where cm: "commit sched this1 tx = (c, this2)"
          by (cases "commit sched this1 tx") auto
        have chk: "checks tx = map (\<lambda>e. (key e, versionstamp e)) results"
          by (simp add: tx_def build_tx_eq)
        have tr2: "trace this2 = trace this @ [Read keys results, Commit tx c]"
          using cm gr(3) by (auto simp: commit_eq Let_def apply_writes_def foreign_trace)
        have db2: "\<not> c \<Longrightarrow> this2 = (foreign sched (foreign sched this))
                     \<lparr>trace := trace this @ [Read keys results, Commit tx False]\<rparr>"
          using cm gr(3) by (auto simp: commit_eq Let_def foreign_trace_update foreign_trace)
        note a = attempt_commit [where updateValues = updateValues and s = s,
            OF g u noabort tr len cm [unfolded tx_def]]
        show thesis
        proof (cases c)
          case True
          with a assms
          have "st = Settled (Inr \<lparr>ok = True, error = None, values' = returned out\<rparr>)"
            and "this' = this2" and "s' = s1" by simp_all
          then show thesis using tr2 True gr(1) chk u
            by (intro committed [of "\<lparr>ok = True, error = None, values' = returned out\<rparr>"
                  results tx out]) simp_all
        next
          case False
          with a assms have "st = CommitFailed (JArr (map KvEntryMaybe.value' results))"
            and "this' = this2" and "s' = s1" by simp_all
          then show thesis using db2 False gr(1) chk u
            by (intro conflict [of results tx out]) simp_all
        qed
      qed
    qed
  qed
qed

subsection \<open>The call\<close>

lemma default_retryCount:
  "setSafeAtomicMany sched this keys updateValues s a =
   setSafeAtomicMany sched this keys updateValues s (Some (retryCount_of a))"
  by (subst (1 2) setSafeAtomicMany.simps) (simp add: retryCount_of_def)

lemma settled_returns:
  assumes "attempt sched this keys updateValues s = (Settled r, this', s')"
  shows "setSafeAtomicMany sched this keys updateValues s a = Some (r, this', s')"
  by (subst setSafeAtomicMany.simps) (simp add: assms)

lemma exhausted_returns:
  assumes "attempt sched this keys updateValues s = (CommitFailed orig, this', s')"
    and "retryCount_of a = 0"
  shows "setSafeAtomicMany sched this keys updateValues s a =
           Some (Inr \<lparr>ok = False, error = Some ''Failed to commit transaction'',
                      values' = orig\<rparr>, this', s')"
  by (subst setSafeAtomicMany.simps) (simp add: assms)

lemma conflict_retries:
  assumes "attempt sched this keys updateValues s = (CommitFailed orig, this', s')"
    and "retryCount_of a \<noteq> 0"
  shows "setSafeAtomicMany sched this keys updateValues s a =
           setSafeAtomicMany sched this' keys updateValues s' (Some (binary64 (retryCount_of a - 1)))"
  by (subst setSafeAtomicMany.simps) (simp add: assms)

lemma after_conflicts_call:
  assumes "after_conflicts k sched this keys updateValues s (retryCount_of a) = Some (this1, s1, rc1)"
  shows "setSafeAtomicMany sched this keys updateValues s a =
         setSafeAtomicMany sched this1 keys updateValues s1 (Some rc1)"
  using assms
proof (induction k arbitrary: this s a)
  case 0
  then show ?case using default_retryCount [of sched this keys updateValues s a] by simp
next
  case (Suc k)
  obtain st this' s' where att: "attempt sched this keys updateValues s = (st, this', s')"
    by (cases "attempt sched this keys updateValues s") auto
  show ?case
  proof (cases st)
    case (Settled r)
    with Suc.prems att show ?thesis by simp
  next
    case (CommitFailed orig)
    with Suc.prems att have nz: "retryCount_of a \<noteq> 0"
      and rest: "after_conflicts k sched this' keys updateValues s'
                   (binary64 (retryCount_of a - 1)) = Some (this1, s1, rc1)"
      by (auto split: if_splits)
    have "after_conflicts k sched this' keys updateValues s'
            (retryCount_of (Some (binary64 (retryCount_of a - 1)))) = Some (this1, s1, rc1)"
      using rest by (simp add: retryCount_of_def)
    from Suc.IH [OF this] conflict_retries [OF att [unfolded CommitFailed] nz]
    show ?thesis by simp
  qed
qed

lemma after_conflicts_db:
  assumes "after_conflicts k sched this keys updateValues s rc = Some (this1, s1, rc1)"
  shows "this1\<lparr>trace := trace this\<rparr> = (foreign sched ^^ (2 * k)) this"
  using assms
proof (induction k arbitrary: this s rc)
  case 0
  then show ?case by auto
next
  case (Suc k)
  obtain st this' s' where att: "attempt sched this keys updateValues s = (st, this', s')"
    by (cases "attempt sched this keys updateValues s") auto
  from att show ?case
  proof (cases rule: attempt_cases)
    case (settled r results out)
    with Suc.prems att show ?thesis by simp
  next
    case (committed m results tx out)
    with Suc.prems att show ?thesis by simp
  next
    case (conflict results tx out)
    with Suc.prems att have nz: "rc \<noteq> 0"
      and rest: "after_conflicts k sched this' keys updateValues s' (binary64 (rc - 1))
                   = Some (this1, s1, rc1)"
      by (auto split: if_splits)
    from Suc.IH [OF rest]
    have ih: "this1\<lparr>trace := trace this'\<rparr> = (foreign sched ^^ (2 * k)) this'" .
    have "this1\<lparr>trace := trace this\<rparr> = ((foreign sched ^^ (2 * k)) this')\<lparr>trace := trace this\<rparr>"
      using retrace [OF ih] by simp
    also have "\<dots> = (foreign sched ^^ (2 * k)) (foreign sched (foreign sched this))"
      by (simp add: conflict(2) funpow_foreign_trace_update funpow_foreign_trace foreign_trace)
    also have "\<dots> = (foreign sched ^^ (2 * Suc k)) this"
      by (simp add: funpow_swap1)
    finally show ?thesis .
  qed
qed

text \<open>The budget after \<open>k\<close> lost commits.\<close>

lemma after_conflicts_step:
  assumes "after_conflicts (Suc k) sched this keys updateValues s rc = Some (this1, s1, rc1)"
  obtains this' s' where "rc \<noteq> 0"
    and "after_conflicts k sched this' keys updateValues s' (binary64 (rc - 1)) = Some (this1, s1, rc1)"
proof -
  obtain st this' s' where att: "attempt sched this keys updateValues s = (st, this', s')"
    by (cases "attempt sched this keys updateValues s") auto
  show thesis
  proof (cases st)
    case (Settled r)
    with assms att show ?thesis by simp
  next
    case (CommitFailed orig)
    with assms att have "rc \<noteq> 0"
      and "after_conflicts k sched this' keys updateValues s' (binary64 (rc - 1))
             = Some (this1, s1, rc1)"
      by (auto split: if_splits)
    then show ?thesis by (rule that)
  qed
qed

lemma after_conflicts_negative:
  assumes "after_conflicts k sched this keys updateValues s rc = Some (this1, s1, rc1)"
    and "rc < 0"
  shows "rc1 < 0"
  using assms
proof (induction k arbitrary: this s rc)
  case 0
  then show ?case by simp
next
  case (Suc k)
  from Suc.prems(1) obtain this' s' where
    rest: "after_conflicts k sched this' keys updateValues s' (binary64 (rc - 1)) = Some (this1, s1, rc1)"
    by (rule after_conflicts_step)
  have "binary64 (rc - 1) < 0"
    using Suc.prems(2) by (intro binary64_negative) simp
  from Suc.IH [OF rest this] show ?case .
qed

lemma after_conflicts_exact:
  assumes "after_conflicts k sched this keys updateValues s rc = Some (this1, s1, rc1)"
    and "0 \<le> rc" and "rc \<le> 9007199254740992"
  shows "rc1 = rc - int k"
  using assms
proof (induction k arbitrary: this s rc)
  case 0
  then show ?case by simp
next
  case (Suc k)
  from Suc.prems(1) obtain this' s' where nz: "rc \<noteq> 0"
    and rest: "after_conflicts k sched this' keys updateValues s' (binary64 (rc - 1)) = Some (this1, s1, rc1)"
    by (rule after_conflicts_step)
  have ex: "binary64 (rc - 1) = rc - 1"
    using Suc.prems(2,3) nz by (intro binary64_exact) simp
  have "rc1 = (rc - 1) - int k"
    using rest Suc.prems(2,3) nz unfolding ex by (intro Suc.IH) simp_all
  then show ?case by simp
qed

lemma after_conflicts_budget:
  assumes "after_conflicts k sched this keys updateValues s rc = Some (this1, s1, 0)"
    and "rc \<le> 9007199254740992"
  shows "rc = int k"
proof -
  have "0 \<le> rc"
    using after_conflicts_negative [OF assms(1)] by force
  from after_conflicts_exact [OF assms(1) this assms(2)] show ?thesis by simp
qed

text \<open>The read that opens pass \<open>k + 1\<close>: so far the call has written nothing.\<close>

lemma read_after_conflicts:
  assumes "after_conflicts k sched this keys updateValues s rc = Some (this1, s1, rc1)"
    and "getMany sched this1 keys = (results, this2)"
  shows "trace this2 = trace this1 @ [Read keys results]"
    and "this2\<lparr>trace := trace this\<rparr> = (foreign sched ^^ (2 * k + 1)) this"
proof -
  note gr = getMany_results [OF assms(2)]
  show "trace this2 = trace this1 @ [Read keys results]"
    using gr(3) by simp
  have db: "this1\<lparr>trace := trace this\<rparr> = (foreign sched ^^ (2 * k)) this"
    by (rule after_conflicts_db [OF assms(1)])
  have "this2\<lparr>trace := trace this\<rparr> = (foreign sched this1)\<lparr>trace := trace this\<rparr>"
    using gr(3) by simp
  also have "\<dots> = foreign sched (this1\<lparr>trace := trace this\<rparr>)"
    by (simp add: foreign_trace_update)
  also have "\<dots> = (foreign sched ^^ (2 * k + 1)) this"
    using db by simp
  finally show "this2\<lparr>trace := trace this\<rparr> = (foreign sched ^^ (2 * k + 1)) this" .
qed

lemma quiet_db:
  assumes "this2\<lparr>trace := trace this\<rparr> = (foreign sched ^^ n) this"
    and "\<forall>t. sched t = []"
  shows "entries this2 = entries this \<and> clock this2 = clock this"
proof -
  have "this2\<lparr>trace := trace this\<rparr> = this\<lparr>tick := tick this + n\<rparr>"
    using assms foreign_quiet [of sched n this] by simp
  then have "entries (this2\<lparr>trace := trace this\<rparr>) = entries (this\<lparr>tick := tick this + n\<rparr>)"
    and "clock (this2\<lparr>trace := trace this\<rparr>) = clock (this\<lparr>tick := tick this + n\<rparr>)"
    by simp_all
  then show ?thesis by simp
qed

subsection \<open>Traces\<close>

lemma last_read_append_read: "last_read (evs @ [Read ks results]) = Some results"
  by (induction evs rule: last_read.induct) simp_all

lemma last_read_append_read_commit:
  "last_read (evs @ [Read ks results, Commit tx c]) = Some results"
  by (induction evs rule: last_read.induct) simp_all

text \<open>A call with a budget of \<open>n\<close> returns, after at most \<open>n + 1\<close> passes.\<close>

lemma bounded_rounds:
  "retryCount_of a = int n \<Longrightarrow> int n \<le> 9007199254740992 \<Longrightarrow>
   \<exists>r this' s' evs.
     setSafeAtomicMany sched this keys updateValues s a = Some (r, this', s') \<and>
     trace this' = trace this @ evs \<and> rounds keys evs \<and>
     reads evs \<le> n + 1 \<and> commits evs \<le> n + 1 \<and>
     reads evs = min (failed_commits evs + 1) (n + 1)"
proof (induction n arbitrary: this s a)
  case 0
  obtain st this' s' where att: "attempt sched this keys updateValues s = (st, this', s')"
    by (cases "attempt sched this keys updateValues s") auto
  from att show ?case
  proof (cases rule: attempt_cases)
    case (settled r results out)
    from settled_returns [OF att [unfolded settled(1)]] settled(3) show ?thesis
      by (simp add: reads_def commits_def failed_commits_def)
  next
    case (committed m results tx out)
    from settled_returns [OF att [unfolded committed(1)]] committed show ?thesis
      by (simp add: reads_def commits_def failed_commits_def)
  next
    case (conflict results tx out)
    from exhausted_returns [OF att [unfolded conflict(1)]] "0.prems" conflict show ?thesis
      by (simp add: reads_def commits_def failed_commits_def)
  qed
next
  case (Suc n)
  obtain st this' s' where att: "attempt sched this keys updateValues s = (st, this', s')"
    by (cases "attempt sched this keys updateValues s") auto
  from att show ?case
  proof (cases rule: attempt_cases)
    case (settled r results out)
    from settled_returns [OF att [unfolded settled(1)]] settled(3) show ?thesis
      by (simp add: reads_def commits_def failed_commits_def)
  next
    case (committed m results tx out)
    from settled_returns [OF att [unfolded committed(1)]] committed show ?thesis
      by (simp add: reads_def commits_def failed_commits_def)
  next
    case (conflict results tx out)
    have nz: "retryCount_of a \<noteq> 0" using Suc.prems by simp
    have "binary64 (retryCount_of a - 1) = retryCount_of a - 1"
      using Suc.prems by (intro binary64_exact) simp
    then have "retryCount_of (Some (binary64 (retryCount_of a - 1))) = int n"
      using Suc.prems by (simp add: retryCount_of_def)
    moreover have "int n \<le> 9007199254740992"
      using Suc.prems by simp
    ultimately obtain r this'' s'' evs where
      call: "setSafeAtomicMany sched this' keys updateValues s' (Some (binary64 (retryCount_of a - 1)))
               = Some (r, this'', s'')"
      and tr: "trace this'' = trace this' @ evs" and ro: "rounds keys evs"
      and b: "reads evs \<le> n + 1" "commits evs \<le> n + 1"
        "reads evs = min (failed_commits evs + 1) (n + 1)"
      using Suc.IH [of "Some (binary64 (retryCount_of a - 1))" this' s'] by blast
    have call': "setSafeAtomicMany sched this keys updateValues s a = Some (r, this'', s'')"
      using conflict_retries [OF att [unfolded conflict(1)] nz] call by simp
    have tr': "trace this'' = trace this @ (Read keys results # Commit tx False # evs)"
      using tr conflict(2) by simp
    have ro': "rounds keys (Read keys results # Commit tx False # evs)"
      using ro conflict(3,4) by simp
    have "reads (Read keys results # Commit tx False # evs) = Suc (reads evs)"
      "commits (Read keys results # Commit tx False # evs) = Suc (commits evs)"
      "failed_commits (Read keys results # Commit tx False # evs) = Suc (failed_commits evs)"
      by (simp_all add: reads_def commits_def failed_commits_def)
    with b have "reads (Read keys results # Commit tx False # evs) \<le> Suc n + 1"
      "commits (Read keys results # Commit tx False # evs) \<le> Suc n + 1"
      "reads (Read keys results # Commit tx False # evs) =
         min (failed_commits (Read keys results # Commit tx False # evs) + 1) (Suc n + 1)"
      by simp_all
    with call' tr' ro' show ?thesis by blast
  qed
qed

text \<open>
  Whenever a call returns a response with \<open>ok = false\<close>, its values are the values of the
  last read, on which the callback ran last.
\<close>

lemma failed_response_values:
  assumes "setSafeAtomicMany sched this keys updateValues s a = Some y"
  shows "case y of (r, this', s') \<Rightarrow>
      \<forall>m. r = Inr m \<longrightarrow> \<not> ok m \<longrightarrow>
        (\<exists>results s0 out. last_read (trace this') = Some results \<and>
            updateValues s0 (map KvEntryMaybe.value' results) = (out, s') \<and>
            values' m = JArr (map KvEntryMaybe.value' results))"
  using assms
proof (induction sched this keys updateValues s a y
    rule: setSafeAtomicMany.raw_induct [rotated 1, consumes 1, case_names step])
  case (step call sched this keys updateValues s a y)
  obtain st this' s' where att: "attempt sched this keys updateValues s = (st, this', s')"
    by (cases "attempt sched this keys updateValues s") auto
  from att show ?case
  proof (cases rule: attempt_cases)
    case (settled r results out)
    with step(2) att have "y = (r, this', s')" by simp
    with settled show ?thesis by (auto simp: last_read_append_read)
  next
    case (committed m results tx out)
    with step(2) att have "y = (Inr m, this', s')" by simp
    with committed show ?thesis by auto
  next
    case (conflict results tx out)
    show ?thesis
    proof (cases "retryCount_of a = 0")
      case True
      with step(2) att conflict(1)
      have "y = (Inr \<lparr>ok = False, error = Some ''Failed to commit transaction'',
                      values' = JArr (map KvEntryMaybe.value' results)\<rparr>, this', s')"
        by simp
      with conflict(2,5) show ?thesis by (auto simp: last_read_append_read_commit)
    next
      case False
      with step(2) att conflict(1)
      have "call sched this' keys updateValues s' (Some (binary64 (retryCount_of a - 1))) = Some y"
        by simp
      then show ?thesis by (rule step(1))
    qed
  qed
qed

text \<open>
  A call whose every pass loses its commit, with a budget that is not \<open>0\<close> and that the
  subtraction of \<open>1\<close> leaves as it is, does not return.
\<close>

lemma stuck_budget_never_returns:
  assumes "setSafeAtomicMany sched this keys updateValues s a = Some y"
    and "\<forall>this s. I this \<longrightarrow>
           (\<exists>orig this' s'. attempt sched this keys updateValues s = (CommitFailed orig, this', s')
              \<and> I this')"
    and "I this"
    and "retryCount_of a \<noteq> 0"
    and "binary64 (retryCount_of a - 1) = retryCount_of a"
  shows False
  using assms
proof (induction sched this keys updateValues s a y
    rule: setSafeAtomicMany.raw_induct [rotated 1, consumes 1, case_names step])
  case (step call sched this keys updateValues s a y)
  from step(3,4) obtain orig this' s' where
    att: "attempt sched this keys updateValues s = (CommitFailed orig, this', s')"
    and inv: "I this'"
    by blast
  from step(2) att step(5,6)
  have c: "call sched this' keys updateValues s' (Some (retryCount_of a)) = Some y"
    by simp
  have r: "retryCount_of (Some (retryCount_of a)) = retryCount_of a"
    by (simp add: retryCount_of_def)
  show ?case
    by (rule step(1) [OF c step(3) inv]) (simp_all add: r step(5,6))
qed

subsection \<open>Evaluating the scenarios\<close>

lemmas backend_defs = getMany_def commit_def foreign_def lookup_entry_def check_holds_def
  apply_writes_def build_tx_def check_def set_op_def atomic_def Let_def

lemmas scenario_defs = chad_def stacy_def bank_def quiet_def rival_def rival_once_def

lemmas pass_defs = attempt_def new_array_def structuredClone_array_def run_aborts_def abort_def

text \<open>Against \<open>rival\<close>, every pass over \<open>[chad]\<close> loses its commit.\<close>

lemma rival_conflict:
  assumes "before_rival this"
  shows "\<exists>orig this' s'.
           attempt rival this [chad] returns_one_value s = (CommitFailed orig, this', s')
           \<and> before_rival this'"
  using assms
  by (auto simp: before_rival_def pass_defs backend_defs rival_def returns_one_value_def
      structuredClone_id split: option.splits)

section \<open>The claims\<close>

text \<open>
  Claim C1. When the callback, run on the values read for \<open>n\<close> keys, makes no call of
  \<open>abort\<close> and returns an array of \<open>n\<close> new values, the pass builds one transaction
  that, for every index \<open>i\<close>, checks key \<open>i\<close> against the version token its read
  returned and sets key \<open>i\<close> to new value \<open>i\<close>; it commits this transaction once, and
  the boolean the commit returns decides alone between success and conflict. The commit
  applies every write or none.
\<close>

theorem commit_checks_and_sets_every_key:
  assumes "getMany sched this keys = (results, this1)"
    and "updateValues s (map KvEntryMaybe.value' results) = (out, s')"
    and "abort_calls out = []"
    and "returned out = JArr newValues"
    and "length newValues = length keys"
    and "commit sched this1 (build_tx results (JArr newValues)) = (committed, this2)"
  shows "build_tx results (JArr newValues) =
           \<lparr>checks = map (\<lambda>i. (keys ! i, versionstamp (results ! i))) [0..<length keys],
            mutations = map (\<lambda>i. MSet (keys ! i) (newValues ! i)) [0..<length keys]\<rparr>
       \<and> attempt sched this keys updateValues s =
           (if committed
            then Settled (Inr \<lparr>ok = True, error = None, values' = JArr newValues\<rparr>)
            else CommitFailed (JArr (map KvEntryMaybe.value' results)), this2, s')
       \<and> trace this2 =
           trace this @ [Read keys results, Commit (build_tx results (JArr newValues)) committed]
       \<and> committed =
           list_all (check_holds (foreign sched this1)) (checks (build_tx results (JArr newValues)))
       \<and> this2\<lparr>trace := trace this1\<rparr> =
           (if committed
            then apply_writes (mutations (build_tx results (JArr newValues))) (foreign sched this1)
            else foreign sched this1)
       \<and> (committed \<longrightarrow>
            setSafeAtomicMany sched this keys updateValues s retryCount =
              Some (Inr \<lparr>ok = True, error = None, values' = JArr newValues\<rparr>, this2, s'))"
proof -
  note gr = getMany_results [OF assms(1)]
  have keys: "\<And>i. i < length keys \<Longrightarrow> key (results ! i) = keys ! i"
    using gr(1,2) by (metis nth_map)
  have "map (\<lambda>e. (key e, versionstamp e)) results
          = map (\<lambda>i. (keys ! i, versionstamp (results ! i))) [0..<length keys]"
    using gr(2) keys by (intro nth_equalityI) simp_all
  moreover have "map (\<lambda>i. MSet (key (results ! i)) (js_index (JArr newValues) i)) [0..<length results]
          = map (\<lambda>i. MSet (keys ! i) (newValues ! i)) [0..<length keys]"
    using gr(2) keys assms(5) by (intro nth_equalityI) simp_all
  ultimately have tx: "build_tx results (JArr newValues) =
           \<lparr>checks = map (\<lambda>i. (keys ! i, versionstamp (results ! i))) [0..<length keys],
            mutations = map (\<lambda>i. MSet (keys ! i) (newValues ! i)) [0..<length keys]\<rparr>"
    by (simp add: build_tx_eq)
  have att: "attempt sched this keys updateValues s =
           (if committed
            then Settled (Inr \<lparr>ok = True, error = None, values' = JArr newValues\<rparr>)
            else CommitFailed (JArr (map KvEntryMaybe.value' results)), this2, s')"
    using attempt_commit [where updateValues = updateValues and s = s and out = out,
        OF assms(1,2,3)] assms(4,5,6) by simp
  have c: "committed =
           list_all (check_holds (foreign sched this1)) (checks (build_tx results (JArr newValues)))"
    and this2: "this2 = (if committed
            then apply_writes (mutations (build_tx results (JArr newValues))) (foreign sched this1)
            else foreign sched this1)\<lparr>trace := trace this1 @ [Commit (build_tx results (JArr newValues)) committed]\<rparr>"
    using assms(6) by (auto simp: commit_eq Let_def)
  have tr: "trace this2 =
           trace this @ [Read keys results, Commit (build_tx results (JArr newValues)) committed]"
    using this2 gr(3) by (simp add: apply_writes_def foreign_trace)
  have db: "this2\<lparr>trace := trace this1\<rparr> =
           (if committed
            then apply_writes (mutations (build_tx results (JArr newValues))) (foreign sched this1)
            else foreign sched this1)"
    using this2 by (simp add: apply_writes_def foreign_trace)
  have call: "committed \<longrightarrow>
            setSafeAtomicMany sched this keys updateValues s retryCount =
              Some (Inr \<lparr>ok = True, error = None, values' = JArr newValues\<rparr>, this2, s')"
  proof
    assume committed
    with att have "attempt sched this keys updateValues s =
        (Settled (Inr \<lparr>ok = True, error = None, values' = JArr newValues\<rparr>), this2, s')"
      by simp
    then show "setSafeAtomicMany sched this keys updateValues s retryCount =
              Some (Inr \<lparr>ok = True, error = None, values' = JArr newValues\<rparr>, this2, s')"
      by (rule settled_returns)
  qed
  from tx att tr c db call show ?thesis by blast
qed

theorem commit_checks_and_sets_every_key_witness:
  "fst (attempt quiet (bank 100 50) [chad, stacy] transfer 0) =
     Settled (Inr \<lparr>ok = True, error = None, values' = JArr [JNum 50, JNum 100]\<rparr>)
   \<and> trace (fst (snd (attempt quiet (bank 100 50) [chad, stacy] transfer 0))) =
     [Read [chad, stacy]
        [\<lparr>key = chad, value' = JNum 100, versionstamp = Some 1\<rparr>,
         \<lparr>key = stacy, value' = JNum 50, versionstamp = Some 2\<rparr>],
      Commit \<lparr>checks = [(chad, Some 1), (stacy, Some 2)],
              mutations = [MSet chad (JNum 50), MSet stacy (JNum 100)]\<rparr> True]"
proof -
  define results where "results = fst (getMany quiet (bank 100 50) [chad, stacy])"
  define this1 where "this1 = snd (getMany quiet (bank 100 50) [chad, stacy])"
  have g: "getMany quiet (bank 100 50) [chad, stacy] = (results, this1)"
    by (simp add: results_def this1_def)
  have results: "results = [\<lparr>key = chad, value' = JNum 100, versionstamp = Some 1\<rparr>,
                            \<lparr>key = stacy, value' = JNum 50, versionstamp = Some 2\<rparr>]"
    by (simp add: results_def backend_defs scenario_defs)
  define out where "out = fst (transfer 0 (map KvEntryMaybe.value' results))"
  have u: "transfer 0 (map KvEntryMaybe.value' results) = (out, 1)"
    by (simp add: out_def results)
  have out: "abort_calls out = []" "returned out = JArr [JNum 50, JNum 100]"
    by (simp_all add: out_def results)
  define tx where "tx = build_tx results (JArr [JNum 50, JNum 100])"
  have c: "commit quiet this1 tx = (fst (commit quiet this1 tx), snd (commit quiet this1 tx))"
    by simp
  have ok: "fst (commit quiet this1 tx)"
    by (simp add: tx_def this1_def results backend_defs scenario_defs)
  have t0: "trace (bank 100 50) = []"
    by (simp add: bank_def)
  have n: "length [JNum 50, JNum 100] = length [chad, stacy]"
    by simp
  note th = commit_checks_and_sets_every_key
    [where updateValues = transfer and s = 0 and retryCount = None,
      OF g u out(1) out(2) n c [unfolded tx_def], folded tx_def]
  have upt: "[0..<length [chad, stacy]] = [0, 1]"
    by (simp add: upt_rec)
  have tx: "tx = \<lparr>checks = [(chad, Some 1), (stacy, Some 2)],
                     mutations = [MSet chad (JNum 50), MSet stacy (JNum 100)]\<rparr>"
    unfolding th [THEN conjunct1] upt by (simp add: results)
  have okT: "fst (commit quiet this1 tx) = True"
    using ok by simp
  note att = th [THEN conjunct2, THEN conjunct1, unfolded okT if_True]
  note tr = th [THEN conjunct2, THEN conjunct2, THEN conjunct1, unfolded okT]
  show ?thesis
    unfolding att fst_conv snd_conv tr by (simp add: t0 tx results)
qed

text \<open>
  Claim C2 says that an aborted call reports the reason passed to \<open>abort\<close>. The closure
  keeps a reason only if it is truthy: after the single call \<open>abort("")\<close> the call reports
  \<open>null\<close>, not the empty string that was passed.
\<close>

theorem abort_reason_counterexample:
  "map_option fst
     (setSafeAtomicMany quiet (bank 20 50) [chad, stacy] (aborts_with [Some '''']) 0 None) =
     Some (Inr \<lparr>ok = False, error = None, values' = JArr [JNum 20, JNum 50]\<rparr>)
   \<and> abort_calls (fst (aborts_with [Some ''''] 0 [JNum 20, JNum 50])) = [Some '''']"
  by code_simp

text \<open>
  Claim C2, amended. When the callback calls \<open>abort\<close> in a pass of a call (after any
  number of passes that lost their commit), the call returns \<open>ok = false\<close> with, as
  error, the last reason passed to \<open>abort\<close> in that pass that is not the empty string
  (\<open>null\<close> if there is none), and with the values read at the start of that pass; the
  pass issues no commit, and the database is what the other clients alone made of it:
  the call has written nothing.
\<close>

theorem abort_reports_values_read_without_commit:
  assumes "after_conflicts k sched this keys updateValues s (retryCount_of retryCount)
             = Some (this1, s1, rc1)"
    and "getMany sched this1 keys = (results, this2)"
    and "updateValues s1 (map KvEntryMaybe.value' results) = (out, s2)"
    and "abort_calls out \<noteq> []"
  shows "setSafeAtomicMany sched this keys updateValues s retryCount =
           Some (Inr \<lparr>ok = False, error = last_nonempty (abort_calls out),
                      values' = JArr (map KvEntryMaybe.value' results)\<rparr>, this2, s2)
       \<and> trace this2 = trace this1 @ [Read keys results]
       \<and> this2\<lparr>trace := trace this\<rparr> = (foreign sched ^^ (2 * k + 1)) this
       \<and> ((\<forall>t. sched t = []) \<longrightarrow> entries this2 = entries this \<and> clock this2 = clock this)"
proof -
  have "setSafeAtomicMany sched this keys updateValues s retryCount =
        setSafeAtomicMany sched this1 keys updateValues s1 (Some rc1)"
    by (rule after_conflicts_call [OF assms(1)])
  also have "\<dots> = Some (Inr \<lparr>ok = False, error = last_nonempty (abort_calls out),
                      values' = JArr (map KvEntryMaybe.value' results)\<rparr>, this2, s2)"
    unfolding abortReason_run_aborts [symmetric]
    by (rule settled_returns,
        rule attempt_aborted [where updateValues = updateValues and s = s1, OF assms(2,3,4)])
  finally have call: "setSafeAtomicMany sched this keys updateValues s retryCount =
           Some (Inr \<lparr>ok = False, error = last_nonempty (abort_calls out),
                      values' = JArr (map KvEntryMaybe.value' results)\<rparr>, this2, s2)" .
  note rd = read_after_conflicts [OF assms(1,2)]
  from call rd quiet_db [OF rd(2)] show ?thesis by blast
qed

theorem abort_reports_values_read_without_commit_witness:
  "map_option fst (setSafeAtomicMany rival_once (bank 100 50) [chad, stacy] transfer 0 (Some 3)) =
     Some (Inr \<lparr>ok = False, error = Some ''Chad has too little money'',
                values' = JArr [JNum 20, JNum 50]\<rparr>)"
proof -
  define this1 where "this1 = fst (snd (attempt rival_once (bank 100 50) [chad, stacy] transfer 0))"
  have a: "after_conflicts 1 rival_once (bank 100 50) [chad, stacy] transfer 0
             (retryCount_of (Some 3)) = Some (this1, 1, 2)"
    by (simp add: this1_def retryCount_of_def binary64_def pass_defs backend_defs scenario_defs)
  define results where "results = fst (getMany rival_once this1 [chad, stacy])"
  define this2 where "this2 = snd (getMany rival_once this1 [chad, stacy])"
  have g: "getMany rival_once this1 [chad, stacy] = (results, this2)"
    by (simp add: results_def this2_def)
  have r: "map KvEntryMaybe.value' results = [JNum 20, JNum 50]"
    by (simp add: results_def this1_def pass_defs backend_defs scenario_defs)
  define out where "out = fst (transfer 1 (map KvEntryMaybe.value' results))"
  have u: "transfer 1 (map KvEntryMaybe.value' results) = (out, 2)"
    by (simp add: out_def r)
  have ab: "abort_calls out \<noteq> []"
    by (simp add: out_def r)
  from abort_reports_values_read_without_commit
    [where updateValues = transfer and s = 0, OF a g u ab]
  show ?thesis by (simp add: r out_def last_nonempty_def)
qed

text \<open>
  Claim C3. When the commit of a pass returns false while \<open>retryCount\<close> has come down to
  \<open>0\<close>, the call returns \<open>ok = false\<close> with the error
  \<open>Failed to commit transaction\<close> and the values read at the start of that last pass,
  not the values the callback returned. A budget up to \<open>2^53\<close> is then the number of
  passes lost before.
\<close>

theorem exhausted_reports_values_read_last:
  assumes "after_conflicts k sched this keys updateValues s (retryCount_of retryCount)
             = Some (this1, s1, 0)"
    and "getMany sched this1 keys = (results, this2)"
    and "updateValues s1 (map KvEntryMaybe.value' results) = (out, s2)"
    and "abort_calls out = []"
    and "truthy (returned out)"
    and "js_length (returned out) = JNum (int (length keys))"
    and "commit sched this2 (build_tx results (returned out)) = (False, this3)"
  shows "setSafeAtomicMany sched this keys updateValues s retryCount =
           Some (Inr \<lparr>ok = False, error = Some ''Failed to commit transaction'',
                      values' = JArr (map KvEntryMaybe.value' results)\<rparr>, this3, s2)
       \<and> (retryCount_of retryCount \<le> 9007199254740992 \<longrightarrow> retryCount_of retryCount = int k)"
proof -
  have att: "attempt sched this1 keys updateValues s1 =
               (CommitFailed (JArr (map KvEntryMaybe.value' results)), this3, s2)"
    using attempt_commit [where updateValues = updateValues and s = s1, OF assms(2-7)] by simp
  have "setSafeAtomicMany sched this keys updateValues s retryCount =
        setSafeAtomicMany sched this1 keys updateValues s1 (Some 0)"
    by (rule after_conflicts_call [OF assms(1)])
  also have "\<dots> = Some (Inr \<lparr>ok = False, error = Some ''Failed to commit transaction'',
                      values' = JArr (map KvEntryMaybe.value' results)\<rparr>, this3, s2)"
    by (rule exhausted_returns [OF att]) (simp add: retryCount_of_def)
  finally show ?thesis
    using after_conflicts_budget [OF assms(1)] by simp
qed

theorem exhausted_reports_values_read_last_witness:
  "map_option fst (setSafeAtomicMany rival (bank 100 50) [chad, stacy] transfer 0 (Some 1)) =
     Some (Inr \<lparr>ok = False, error = Some ''Failed to commit transaction'',
                values' = JArr [JNum 500, JNum 50]\<rparr>)
   \<and> returned (fst (transfer 1 [JNum 500, JNum 50])) = JArr [JNum 450, JNum 100]"
proof -
  define this1 where "this1 = fst (snd (attempt rival (bank 100 50) [chad, stacy] transfer 0))"
  have a: "after_conflicts 1 rival (bank 100 50) [chad, stacy] transfer 0
             (retryCount_of (Some 1)) = Some (this1, 1, 0)"
    by (simp add: this1_def retryCount_of_def binary64_def pass_defs backend_defs scenario_defs)
  define results where "results = fst (getMany rival this1 [chad, stacy])"
  define this2 where "this2 = snd (getMany rival this1 [chad, stacy])"
  have g: "getMany rival this1 [chad, stacy] = (results, this2)"
    by (simp add: results_def this2_def)
  have r: "map KvEntryMaybe.value' results = [JNum 500, JNum 50]"
    by (simp add: results_def this1_def pass_defs backend_defs scenario_defs)
  define out where "out = fst (transfer 1 (map KvEntryMaybe.value' results))"
  have u: "transfer 1 (map KvEntryMaybe.value' results) = (out, 2)"
    by (simp add: out_def r)
  have o: "abort_calls out = []" "truthy (returned out)"
    "js_length (returned out) = JNum (int (length [chad, stacy]))"
    "returned out = JArr [JNum 450, JNum 100]"
    by (simp_all add: out_def r)
  define this3 where "this3 = snd (commit rival this2 (build_tx results (returned out)))"
  have "\<not> fst (commit rival this2 (build_tx results (returned out)))"
    unfolding o(4)
    by (simp add: this2_def results_def this1_def pass_defs backend_defs scenario_defs)
  then have c: "commit rival this2 (build_tx results (returned out)) = (False, this3)"
    by (simp add: this3_def prod_eq_iff)
  from exhausted_reports_values_read_last
    [where updateValues = transfer and s = 0, OF a g u o(1,2,3) c]
  show ?thesis by (simp add: r)
qed

text \<open>
  Claim C4 says that under every retry budget \<open>n \<ge> 0\<close> the call ends within \<open>n + 1\<close>
  passes. The budget is a binary64 number: at \<open>2^53 + 4\<close> the subtraction
  \<open>retryCount - 1\<close> rounds back to \<open>retryCount\<close>, the budget never comes down, and
  against a client that defeats every commit the call never returns.
\<close>

theorem retry_budget_counterexample:
  "(0::int) \<le> 9007199254740996
   \<and> binary64 (9007199254740996 - 1) = 9007199254740996
   \<and> setSafeAtomicMany rival (bank 100 50) [chad] returns_one_value 0 (Some 9007199254740996)
       = None"
proof -
  have inv: "\<forall>this s. before_rival this \<longrightarrow>
           (\<exists>orig this' s'.
              attempt rival this [chad] returns_one_value s = (CommitFailed orig, this', s')
              \<and> before_rival this')"
    using rival_conflict by blast
  have start: "before_rival (bank 100 50)"
    by (simp add: before_rival_def bank_def chad_def stacy_def)
  have nz: "retryCount_of (Some 9007199254740996) \<noteq> 0"
    and same: "binary64 (retryCount_of (Some 9007199254740996) - 1)
                = retryCount_of (Some 9007199254740996)"
    using binary64_stuck by (simp_all add: retryCount_of_def)
  have "setSafeAtomicMany rival (bank 100 50) [chad] returns_one_value 0 (Some 9007199254740996)
       = None"
  proof (cases "setSafeAtomicMany rival (bank 100 50) [chad] returns_one_value 0
                  (Some 9007199254740996)")
    case None
    then show ?thesis .
  next
    case (Some y)
    from stuck_budget_never_returns [OF Some inv start nz same] show ?thesis ..
  qed
  with binary64_stuck show ?thesis by simp
qed

text \<open>
  Claim C4, amended. Under an integer retry budget \<open>n\<close> with \<open>0 \<le> n \<le> 2^53\<close> the call
  returns. Its round trips are passes over the keys: every pass opens with a fresh read
  of all the keys, and a commit checks the version tokens of the read of its own pass.
  The number of passes is one more than the number of failed commits, up to \<open>n + 1\<close>;
  so there are at most \<open>n + 1\<close> reads and at most \<open>n + 1\<close> commits.
\<close>

theorem retries_bounded_by_budget:
  assumes "0 \<le> retryCount_of retryCount"
    and "retryCount_of retryCount \<le> 9007199254740992"
  shows "\<exists>r this' s' evs.
     setSafeAtomicMany sched this keys updateValues s retryCount = Some (r, this', s') \<and>
     trace this' = trace this @ evs \<and> rounds keys evs \<and>
     reads evs \<le> nat (retryCount_of retryCount) + 1 \<and>
     commits evs \<le> nat (retryCount_of retryCount) + 1 \<and>
     reads evs = min (failed_commits evs + 1) (nat (retryCount_of retryCount) + 1)"
  using bounded_rounds [of retryCount "nat (retryCount_of retryCount)"] assms by simp

theorem retries_bounded_by_budget_witness:
  "(\<exists>r this' s' evs.
     setSafeAtomicMany rival (bank 100 50) [chad, stacy] transfer 0 (Some 2) = Some (r, this', s') \<and>
     trace this' = trace (bank 100 50) @ evs \<and> rounds [chad, stacy] evs \<and>
     reads evs \<le> 3 \<and> commits evs \<le> 3 \<and> reads evs = min (failed_commits evs + 1) 3)
   \<and> map_option (\<lambda>(r, this', runs).
          (reads (trace this'), commits (trace this'), failed_commits (trace this'), runs))
        (setSafeAtomicMany rival (bank 100 50) [chad, stacy] transfer 0 (Some 2)) = Some (3, 3, 3, 3)
   \<and> map_option (\<lambda>(r, this', runs).
          (reads (trace this'), commits (trace this'), failed_commits (trace this'), runs))
        (setSafeAtomicMany rival_once (bank 100 50) [chad, stacy] transfer 0 (Some 2))
       = Some (2, 1, 1, 2)"
proof (intro conjI)
  show "\<exists>r this' s' evs.
     setSafeAtomicMany rival (bank 100 50) [chad, stacy] transfer 0 (Some 2) = Some (r, this', s') \<and>
     trace this' = trace (bank 100 50) @ evs \<and> rounds [chad, stacy] evs \<and>
     reads evs \<le> 3 \<and> commits evs \<le> 3 \<and> reads evs = min (failed_commits evs + 1) 3"
    using retries_bounded_by_budget [of "Some 2" rival "bank 100 50" "[chad, stacy]" transfer 0]
    by (simp add: retryCount_of_def)
  show "map_option (\<lambda>(r, this', runs).
          (reads (trace this'), commits (trace this'), failed_commits (trace this'), runs))
        (setSafeAtomicMany rival (bank 100 50) [chad, stacy] transfer 0 (Some 2)) = Some (3, 3, 3, 3)"
    by code_simp
  show "map_option (\<lambda>(r, this', runs).
          (reads (trace this'), commits (trace this'), failed_commits (trace this'), runs))
        (setSafeAtomicMany rival_once (bank 100 50) [chad, stacy] transfer 0 (Some 2))
       = Some (2, 1, 1, 2)"
    by code_simp
qed

text \<open>
  Claim C5. A call that leaves \<open>retryCount\<close> out runs with a retry budget of \<open>10\<close>.
\<close>

theorem default_retry_budget_is_10:
  "setSafeAtomicMany sched this keys updateValues s None =
   setSafeAtomicMany sched this keys updateValues s (Some 10)"
  using default_retryCount [of sched this keys updateValues s None]
  by (simp add: retryCount_of_def)

theorem default_retry_budget_is_10_witness:
  "map_option (\<lambda>(r, this', runs). (r, commits (trace this'), runs))
     (setSafeAtomicMany rival (bank 100 50) [chad, stacy] transfer 0 None) =
   Some (Inr \<lparr>ok = False, error = Some ''Failed to commit transaction'',
              values' = JArr [JNum 500, JNum 50]\<rparr>, 11, 11)"
  by (subst default_retry_budget_is_10) code_simp

text \<open>
  Claim C6 says that a call whose callback makes no call of \<open>abort\<close> and returns no
  array throws. The code tests the returned value for truthiness and for its \<open>length\<close>
  only, so an object with \<open>length: 2\<close> or the string \<open>"ab"\<close>, returned for two keys, passes
  both tests: the call commits and returns \<open>ok = true\<close>.
\<close>

theorem non_array_return_counterexample:
  "map_option fst
     (setSafeAtomicMany quiet (bank 100 50) [chad, stacy]
        (returns (JObj [(''length'', JNum 2)])) 0 None) =
     Some (Inr \<lparr>ok = True, error = None, values' = JObj [(''length'', JNum 2)]\<rparr>)
   \<and> commits (trace (fst (snd (the
        (setSafeAtomicMany quiet (bank 100 50) [chad, stacy]
           (returns (JObj [(''length'', JNum 2)])) 0 None))))) = 1
   \<and> map_option fst
     (setSafeAtomicMany quiet (bank 100 50) [chad, stacy] (returns (JStr ''ab'')) 0 None) =
     Some (Inr \<lparr>ok = True, error = None, values' = JStr ''ab''\<rparr>)
   \<and> commits (trace (fst (snd (the
        (setSafeAtomicMany quiet (bank 100 50) [chad, stacy] (returns (JStr ''ab'')) 0 None)))))
       = 1"
  by code_simp

text \<open>
  Claim C6, amended. When the callback makes no call of \<open>abort\<close>, returns no array, and
  does not return a truthy value whose \<open>length\<close> is the number of keys (a string of that
  many characters, an array-like object), the call throws an \<open>Error\<close> in that very
  pass: no commit is issued, no further pass follows, and the call has written nothing
  to the database.
\<close>

theorem non_array_return_throws:
  assumes "after_conflicts k sched this keys updateValues s (retryCount_of retryCount)
             = Some (this1, s1, rc1)"
    and "getMany sched this1 keys = (results, this2)"
    and "updateValues s1 (map KvEntryMaybe.value' results) = (out, s2)"
    and "abort_calls out = []"
    and "\<forall>newValues. returned out \<noteq> JArr newValues"
    and "truthy (returned out) \<longrightarrow> js_length (returned out) \<noteq> JNum (int (length keys))"
  shows "setSafeAtomicMany sched this keys updateValues s retryCount =
           Some (Inl (if truthy (returned out)
                      then ''The number of resuts returned from the update callback '' @
                           ''must match the number of keys''
                      else ''updateValues must return an array of values to update''),
                 this2, s2)
       \<and> trace this2 = trace this1 @ [Read keys results]
       \<and> this2\<lparr>trace := trace this\<rparr> = (foreign sched ^^ (2 * k + 1)) this
       \<and> ((\<forall>t. sched t = []) \<longrightarrow> entries this2 = entries this \<and> clock this2 = clock this)"
proof -
  have att: "attempt sched this1 keys updateValues s1 =
           (Settled (Inl (if truthy (returned out)
                      then ''The number of resuts returned from the update callback '' @
                           ''must match the number of keys''
                      else ''updateValues must return an array of values to update'')),
            this2, s2)"
  proof (cases "truthy (returned out)")
    case True
    with assms(6) have len: "js_length (returned out) \<noteq> JNum (int (length keys))"
      by simp
    from True show ?thesis
      using attempt_wrong_length [where updateValues = updateValues and s = s1,
          OF assms(2,3,4) True len] by simp
  next
    case False
    then show ?thesis
      using attempt_falsy [where updateValues = updateValues and s = s1,
          OF assms(2,3,4) False] by simp
  qed
  have call: "setSafeAtomicMany sched this keys updateValues s retryCount =
           Some (Inl (if truthy (returned out)
                      then ''The number of resuts returned from the update callback '' @
                           ''must match the number of keys''
                      else ''updateValues must return an array of values to update''),
                 this2, s2)"
    using after_conflicts_call [OF assms(1)] settled_returns [OF att, of "Some rc1"] by simp
  note rd = read_after_conflicts [OF assms(1,2)]
  from call rd quiet_db [OF rd(2)] show ?thesis by blast
qed

theorem non_array_return_throws_witness:
  "setSafeAtomicMany quiet (bank 100 50) [chad, stacy] returns_nothing 0 None =
     Some (Inl ''updateValues must return an array of values to update'',
           snd (getMany quiet (bank 100 50) [chad, stacy]), 1)
   \<and> entries (snd (getMany quiet (bank 100 50) [chad, stacy])) = entries (bank 100 50)
   \<and> trace (snd (getMany quiet (bank 100 50) [chad, stacy])) =
       [Read [chad, stacy] (fst (getMany quiet (bank 100 50) [chad, stacy]))]
   \<and> map_option fst
       (setSafeAtomicMany quiet (bank 100 50) [chad, stacy] (returns (JStr ''abc'')) 0 None) =
     Some (Inl (''The number of resuts returned from the update callback '' @
                ''must match the number of keys''))"
proof -
  have a: "after_conflicts 0 quiet (bank 100 50) [chad, stacy] returns_nothing 0
             (retryCount_of None) = Some (bank 100 50, 0, 10)"
    by (simp add: retryCount_of_def)
  define results where "results = fst (getMany quiet (bank 100 50) [chad, stacy])"
  define this2 where "this2 = snd (getMany quiet (bank 100 50) [chad, stacy])"
  have g: "getMany quiet (bank 100 50) [chad, stacy] = (results, this2)"
    by (simp add: results_def this2_def)
  define out where "out = fst (returns_nothing 0 (map KvEntryMaybe.value' results))"
  have u: "returns_nothing 0 (map KvEntryMaybe.value' results) = (out, 1)"
    by (simp add: out_def returns_nothing_def)
  have o: "abort_calls out = []" "\<forall>newValues. returned out \<noteq> JArr newValues"
    "truthy (returned out) \<longrightarrow> js_length (returned out) \<noteq> JNum (int (length [chad, stacy]))"
    "\<not> truthy (returned out)"
    by (simp_all add: out_def returns_nothing_def)
  have q: "\<forall>t. quiet t = []" by (simp add: quiet_def)
  have a': "after_conflicts 0 quiet (bank 100 50) [chad, stacy] (returns (JStr ''abc'')) 0
             (retryCount_of None) = Some (bank 100 50, 0, 10)"
    by (simp add: retryCount_of_def)
  define out' where "out' = fst (returns (JStr ''abc'') 0 (map KvEntryMaybe.value' results))"
  have u': "returns (JStr ''abc'') 0 (map KvEntryMaybe.value' results) = (out', 1)"
    by (simp add: out'_def returns_def)
  have o': "abort_calls out' = []" "\<forall>newValues. returned out' \<noteq> JArr newValues"
    "truthy (returned out') \<longrightarrow> js_length (returned out') \<noteq> JNum (int (length [chad, stacy]))"
    "truthy (returned out')"
    by (simp_all add: out'_def returns_def)
  from non_array_return_throws
    [where updateValues = returns_nothing and s = 0, OF a g u o(1,2,3)] o(4) q
    non_array_return_throws
    [where updateValues = "returns (JStr ''abc'')" and s = 0, OF a' g u' o'(1,2,3)] o'(4)
  show ?thesis by (simp add: this2_def results_def bank_def)
qed

text \<open>
  Claim C7. When the callback makes no call of \<open>abort\<close> and returns a sequence whose
  length is not the number of keys, the call throws an \<open>Error\<close> in that very pass (for
  an array always the one about the number of results): no commit is issued, no further
  pass follows, and the call has written nothing to the database.
\<close>

theorem wrong_length_return_throws:
  assumes "after_conflicts k sched this keys updateValues s (retryCount_of retryCount)
             = Some (this1, s1, rc1)"
    and "getMany sched this1 keys = (results, this2)"
    and "updateValues s1 (map KvEntryMaybe.value' results) = (out, s2)"
    and "abort_calls out = []"
    and "js_length (returned out) = JNum n"
    and "n \<noteq> int (length keys)"
  shows "setSafeAtomicMany sched this keys updateValues s retryCount =
           Some (Inl (if truthy (returned out)
                      then ''The number of resuts returned from the update callback '' @
                           ''must match the number of keys''
                      else ''updateValues must return an array of values to update''),
                 this2, s2)
       \<and> (\<forall>newValues. returned out = JArr newValues \<longrightarrow> truthy (returned out))
       \<and> trace this2 = trace this1 @ [Read keys results]
       \<and> this2\<lparr>trace := trace this\<rparr> = (foreign sched ^^ (2 * k + 1)) this
       \<and> ((\<forall>t. sched t = []) \<longrightarrow> entries this2 = entries this \<and> clock this2 = clock this)"
proof -
  have len: "js_length (returned out) \<noteq> JNum (int (length keys))"
    using assms(5,6) by simp
  have att: "attempt sched this1 keys updateValues s1 =
           (Settled (Inl (if truthy (returned out)
                      then ''The number of resuts returned from the update callback '' @
                           ''must match the number of keys''
                      else ''updateValues must return an array of values to update'')),
            this2, s2)"
  proof (cases "truthy (returned out)")
    case True
    then show ?thesis
      using attempt_wrong_length [where updateValues = updateValues and s = s1,
          OF assms(2,3,4) True len] by simp
  next
    case False
    then show ?thesis
      using attempt_falsy [where updateValues = updateValues and s = s1,
          OF assms(2,3,4) False] by simp
  qed
  have call: "setSafeAtomicMany sched this keys updateValues s retryCount =
           Some (Inl (if truthy (returned out)
                      then ''The number of resuts returned from the update callback '' @
                           ''must match the number of keys''
                      else ''updateValues must return an array of values to update''),
                 this2, s2)"
    using after_conflicts_call [OF assms(1)] settled_returns [OF att, of "Some rc1"] by simp
  have arr: "\<forall>newValues. returned out = JArr newValues \<longrightarrow> truthy (returned out)"
    by simp
  note rd = read_after_conflicts [OF assms(1,2)]
  from call arr rd quiet_db [OF rd(2)] show ?thesis by blast
qed

theorem wrong_length_return_throws_witness:
  "setSafeAtomicMany quiet (bank 100 50) [chad, stacy] returns_one_value 0 (Some 3) =
     Some (Inl (''The number of resuts returned from the update callback '' @
                ''must match the number of keys''),
           snd (getMany quiet (bank 100 50) [chad, stacy]), 1)
   \<and> entries (snd (getMany quiet (bank 100 50) [chad, stacy])) = entries (bank 100 50)
   \<and> trace (snd (getMany quiet (bank 100 50) [chad, stacy])) =
       [Read [chad, stacy] (fst (getMany quiet (bank 100 50) [chad, stacy]))]"
proof -
  have a: "after_conflicts 0 quiet (bank 100 50) [chad, stacy] returns_one_value 0
             (retryCount_of (Some 3)) = Some (bank 100 50, 0, 3)"
    by (simp add: retryCount_of_def)
  define results where "results = fst (getMany quiet (bank 100 50) [chad, stacy])"
  define this2 where "this2 = snd (getMany quiet (bank 100 50) [chad, stacy])"
  have g: "getMany quiet (bank 100 50) [chad, stacy] = (results, this2)"
    by (simp add: results_def this2_def)
  define out where "out = fst (returns_one_value 0 (map KvEntryMaybe.value' results))"
  have u: "returns_one_value 0 (map KvEntryMaybe.value' results) = (out, 1)"
    by (simp add: out_def returns_one_value_def)
  have o: "abort_calls out = []" "js_length (returned out) = JNum 1" "truthy (returned out)"
    by (simp_all add: out_def returns_one_value_def)
  have n: "(1::int) \<noteq> int (length [chad, stacy])" by simp
  have q: "\<forall>t. quiet t = []" by (simp add: quiet_def)
  from wrong_length_return_throws
    [where updateValues = returns_one_value and s = 0, OF a g u o(1,2) n] o(3) q
  show ?thesis by (simp add: this2_def results_def bank_def)
qed

text \<open>
  Claim C8 says that after several calls of \<open>abort\<close> the reported reason is the last
  reason supplied. The closure keeps a reason only if it is truthy, so an empty string
  passed last does not replace the reason passed before it: after
  \<open>abort("Chad has too little money"); abort("")\<close> the call reports the first reason,
  and the last reason supplied is the empty string.
\<close>

theorem last_supplied_reason_counterexample:
  "map_option fst
     (setSafeAtomicMany quiet (bank 20 50) [chad, stacy]
        (aborts_with [Some ''Chad has too little money'', Some '''']) 0 None) =
     Some (Inr \<lparr>ok = False, error = Some ''Chad has too little money'',
                values' = JArr [JNum 20, JNum 50]\<rparr>)
   \<and> last_supplied
       (abort_calls (fst (aborts_with [Some ''Chad has too little money'', Some '''']
                            0 [JNum 20, JNum 50]))) = Some ''''
   \<and> last_supplied
       (abort_calls (fst (aborts_with [Some ''Chad has too little money'', Some '''']
                            0 [JNum 20, JNum 50]))) \<noteq> Some ''Chad has too little money''"
  by code_simp

text \<open>
  Claim C8, amended. When the callback calls \<open>abort\<close> more than once in a pass, the pass
  ends the call as aborted, and the reported error is the last reason among those calls
  that is not the empty string (\<open>null\<close> if there is none).
\<close>

theorem abort_reports_last_nonempty_reason:
  assumes "getMany sched this keys = (results, this1)"
    and "updateValues s (map KvEntryMaybe.value' results) = (out, s')"
    and "1 < length (abort_calls out)"
  shows "attempt sched this keys updateValues s =
           (Settled (Inr \<lparr>ok = False, error = last_nonempty (abort_calls out),
                          values' = JArr (map KvEntryMaybe.value' results)\<rparr>), this1, s')
       \<and> setSafeAtomicMany sched this keys updateValues s retryCount =
           Some (Inr \<lparr>ok = False, error = last_nonempty (abort_calls out),
                      values' = JArr (map KvEntryMaybe.value' results)\<rparr>, this1, s')"
proof -
  have ne: "abort_calls out \<noteq> []" using assms(3) by auto
  have att: "attempt sched this keys updateValues s =
           (Settled (Inr \<lparr>ok = False, error = last_nonempty (abort_calls out),
                          values' = JArr (map KvEntryMaybe.value' results)\<rparr>), this1, s')"
    using attempt_aborted [where updateValues = updateValues and s = s, OF assms(1,2) ne]
    by (simp add: abortReason_run_aborts)
  from att settled_returns [OF att] show ?thesis by simp
qed

theorem abort_reports_last_nonempty_reason_witness:
  "map_option fst
     (setSafeAtomicMany quiet (bank 20 50) [chad, stacy]
        (aborts_with [Some ''first'', None, Some ''second'', Some '''']) 0 None) =
     Some (Inr \<lparr>ok = False, error = Some ''second'', values' = JArr [JNum 20, JNum 50]\<rparr>)"
proof -
  define results where "results = fst (getMany quiet (bank 20 50) [chad, stacy])"
  define this1 where "this1 = snd (getMany quiet (bank 20 50) [chad, stacy])"
  have g: "getMany quiet (bank 20 50) [chad, stacy] = (results, this1)"
    by (simp add: results_def this1_def)
  have r: "map KvEntryMaybe.value' results = [JNum 20, JNum 50]"
    by (simp add: results_def backend_defs scenario_defs)
  define out where
    "out = fst (aborts_with [Some ''first'', None, Some ''second'', Some '''']
                  0 (map KvEntryMaybe.value' results))"
  have u: "aborts_with [Some ''first'', None, Some ''second'', Some '''']
             0 (map KvEntryMaybe.value' results) = (out, 1)"
    by (simp add: out_def aborts_with_def)
  have calls: "abort_calls out = [Some ''first'', None, Some ''second'', Some '''']"
    by (simp add: out_def aborts_with_def)
  have n: "1 < length (abort_calls out)" by (simp add: calls)
  from abort_reports_last_nonempty_reason
    [where updateValues = "aborts_with [Some ''first'', None, Some ''second'', Some '''']"
       and s = 0 and retryCount = None, OF g u n]
  show ?thesis by (simp add: r calls last_nonempty_def)
qed

text \<open>
  Claim C9. \<open>setSafeAtomic\<close> is the multi-key operation on the one-key batch, with the
  callback applied to \<open>values[0]\<close> and \<open>values[0]\<close> taken out of the response: same
  \<open>ok\<close>, same \<open>error\<close>, same thrown errors, same effect on the backend, for every key,
  callback and retry budget.
\<close>

theorem setSafeAtomic_refines_updateOne:
  "setSafeAtomic sched this k updateValue s retryCount =
   updateOne_spec sched this k updateValue s retryCount"
proof -
  have w: "wrap_single updateValue =
      (\<lambda>s values.
             (\<lparr>mutated = values[0 := mutated (fst (updateValue s (js_index (JArr values) 0)))],
               abort_calls = abort_calls (fst (updateValue s (js_index (JArr values) 0))),
               returned = JArr [returned (fst (updateValue s (js_index (JArr values) 0)))]\<rparr>,
              snd (updateValue s (js_index (JArr values) 0))))"
    by (intro ext) (simp add: wrap_single_def split: prod.split)
  show ?thesis
    unfolding setSafeAtomic_def updateOne_spec_def w
    by (auto split: option.split sum.split prod.split)
qed

theorem setSafeAtomic_refines_updateOne_witness:
  "map_option fst (setSafeAtomic quiet (bank 100 50) chad increment 0 None) =
     Some (Inr \<lparr>ok = True, error = None, value' = JNum 101\<rparr>)
   \<and> map_option fst (updateOne_spec quiet (bank 100 50) chad increment 0 None) =
     Some (Inr \<lparr>ok = True, error = None, value' = JNum 101\<rparr>)"
  by (subst setSafeAtomic_refines_updateOne) code_simp

text \<open>
  Claim C10. The values are cloned before the callback runs, and the callback has no
  reference to the clone. So whenever a call returns \<open>ok = false\<close> (aborted or out of
  retries), the values it reports are the clone of the values of its last read, equal to
  them as read, whatever the callback wrote into the array it was passed.
\<close>

theorem failed_call_reports_values_as_read:
  assumes "setSafeAtomicMany sched this keys updateValues s retryCount = Some (Inr m, this', s')"
    and "\<not> ok m"
  shows "\<exists>results s0 out.
           last_read (trace this') = Some results \<and>
           updateValues s0 (map KvEntryMaybe.value' results) = (out, s') \<and>
           values' m = structuredClone (JArr (map KvEntryMaybe.value' results)) \<and>
           values' m = JArr (map KvEntryMaybe.value' results) \<and>
           (mutated out \<noteq> map KvEntryMaybe.value' results \<longrightarrow> values' m \<noteq> JArr (mutated out))"
proof -
  from failed_response_values [OF assms(1)] assms(2)
  obtain results s0 out where
    "last_read (trace this') = Some results"
    "updateValues s0 (map KvEntryMaybe.value' results) = (out, s')"
    "values' m = JArr (map KvEntryMaybe.value' results)"
    by auto
  then show ?thesis
    by (intro exI [of _ results] exI [of _ s0] exI [of _ out])
       (simp add: structuredClone_id map_idI)
qed

theorem failed_call_reports_values_as_read_witness:
  "\<exists>this' m.
     setSafeAtomicMany rival (bank 100 50) [chad, stacy] transfer_in_place 0 (Some 0) =
       Some (Inr m, this', 1)
     \<and> m = \<lparr>ok = False, error = Some ''Failed to commit transaction'',
             values' = JArr [JNum 100, JNum 50]\<rparr>
     \<and> (\<exists>results s0 out.
           last_read (trace this') = Some results \<and>
           transfer_in_place s0 (map KvEntryMaybe.value' results) = (out, 1) \<and>
           values' m = structuredClone (JArr (map KvEntryMaybe.value' results)) \<and>
           values' m = JArr (map KvEntryMaybe.value' results) \<and>
           (mutated out \<noteq> map KvEntryMaybe.value' results \<longrightarrow> values' m \<noteq> JArr (mutated out)))
     \<and> mutated (fst (transfer_in_place 0 [JNum 100, JNum 50])) = [JNum 50, JNum 100]"
proof -
  define a where "a = attempt rival (bank 100 50) [chad, stacy] transfer_in_place 0"
  define m where "m = \<lparr>ok = False, error = Some ''Failed to commit transaction'',
                        values' = JArr [JNum 100, JNum 50]\<rparr>"
  have att: "a = (CommitFailed (JArr [JNum 100, JNum 50]), fst (snd a), 1)"
    by (simp add: a_def pass_defs backend_defs scenario_defs prod_eq_iff)
  have call: "setSafeAtomicMany rival (bank 100 50) [chad, stacy] transfer_in_place 0 (Some 0) =
       Some (Inr m, fst (snd a), 1)"
    unfolding m_def
    by (rule exhausted_returns [OF att [unfolded a_def], folded a_def])
       (simp add: retryCount_of_def)
  have nok: "\<not> ok m" by (simp add: m_def)
  note ex = failed_call_reports_values_as_read [OF call nok]
  have mu: "mutated (fst (transfer_in_place 0 [JNum 100, JNum 50])) = [JNum 50, JNum 100]"
    by simp
  show ?thesis
    by (intro exI [of _ "fst (snd a)"] exI [of _ m] conjI) (rule call, rule m_def, rule ex, rule mu)
qed

end
